theory Spec2Isabelle
  imports Main "HOL-Library.Multiset"
begin

section \<open>Strings\<close>

text \<open>
  JavaScript strings are modelled as \<^typ>\<open>string\<close>: lists of code units, restricted to
  ASCII. The built-in string methods the program calls are written out for that range:
  \<^verbatim>\<open>toLowerCase\<close> lowers \<open>A\<close>..\<open>Z\<close>, \<^verbatim>\<open>trim\<close> and the regular expression
  class \<^verbatim>\<open>\s\<close> know the six ASCII white-space characters, \<^verbatim>\<open>length\<close> is the number
  of code units.
\<close>

definition toLowerChar :: "char \<Rightarrow> char" where
  "toLowerChar c =
     (case map_of (zip ''ABCDEFGHIJKLMNOPQRSTUVWXYZ'' ''abcdefghijklmnopqrstuvwxyz'') c of
        Some l \<Rightarrow> l
      | None \<Rightarrow> c)"

definition toLowerCase :: "string \<Rightarrow> string" where
  "toLowerCase s = map toLowerChar s"

text \<open>\<^verbatim>\<open>s.startsWith(t)\<close> and \<^verbatim>\<open>s.includes(t)\<close>.\<close>

fun startsWith :: "string \<Rightarrow> string \<Rightarrow> bool" where
  "startsWith s [] = True"
| "startsWith [] (c # t) = False"
| "startsWith (a # s) (c # t) = (a = c \<and> startsWith s t)"

fun includes_str :: "string \<Rightarrow> string \<Rightarrow> bool" where
  "includes_str [] t = (t = [])"
| "includes_str (a # s) t = (startsWith (a # s) t \<or> includes_str s t)"

definition isWhiteSpace :: "char \<Rightarrow> bool" where
  "isWhiteSpace c = List.member [CHR 0x09, CHR 0x0A, CHR 0x0B, CHR 0x0C, CHR 0x0D, CHR 0x20] c"

definition trim :: "string \<Rightarrow> string" where
  "trim s = rev (dropWhile isWhiteSpace (rev (dropWhile isWhiteSpace s)))"

text \<open>\<^verbatim>\<open>s.split(c)\<close> for a one-character separator: never the empty array.\<close>

fun split_on :: "char \<Rightarrow> string \<Rightarrow> string list" where
  "split_on c [] = [[]]"
| "split_on c (x # xs) =
     (if x = c then [] # split_on c xs
      else (case split_on c xs of
              [] \<Rightarrow> [[x]]
            | w # ws \<Rightarrow> (x # w) # ws))"

text \<open>
  The number of pieces of \<^verbatim>\<open>text.split(/\s+/)\<close> is one more than the number of maximal
  runs of white space; \<open>whiteSpaceRuns\<close> counts the runs, the flag telling whether the
  previous character was white space.
\<close>

fun whiteSpaceRuns :: "bool \<Rightarrow> string \<Rightarrow> nat" where
  "whiteSpaceRuns inRun [] = 0"
| "whiteSpaceRuns inRun (c # s) =
     (if isWhiteSpace c then (if inRun then 0 else 1) + whiteSpaceRuns True s
      else whiteSpaceRuns False s)"

text \<open>The decimal numeral a template literal prints for a non-negative integer.\<close>

fun string_of_nat :: "nat \<Rightarrow> string" where
  "string_of_nat n =
     (if n < 10 then [''0123456789'' ! n]
      else string_of_nat (n div 10) @ [''0123456789'' ! (n mod 10)])"

declare string_of_nat.simps [simp del]

subsection \<open>Global replacement of a literal pattern\<close>

text \<open>
  \<^verbatim>\<open>str.replace(new RegExp(pat, 'g'), repl)\<close> for a pattern without regular expression
  operators, hence without capture groups. The replacement text is a template: \<^verbatim>\<open>$$\<close> is
  a dollar sign, \<^verbatim>\<open>$&\<close> the matched text, \<^verbatim>\<open>$`\<close> the part of the subject before the
  match, \<^verbatim>\<open>$'\<close> the part after it; with no capture group every other \<^verbatim>\<open>$\<close> stands for
  itself. \<open>getSubstitution m pre suf repl\<close> expands the template for the match \<open>m\<close>
  found between \<open>pre\<close> and \<open>suf\<close>.
\<close>

fun getSubstitution :: "string \<Rightarrow> string \<Rightarrow> string \<Rightarrow> string \<Rightarrow> string" where
  "getSubstitution m pre suf [] = []"
| "getSubstitution m pre suf [c] = [c]"
| "getSubstitution m pre suf (c # d # r) =
     (if c = CHR ''$'' then
        (if d = CHR ''$'' then CHR ''$'' # getSubstitution m pre suf r
         else if d = CHR ''&'' then m @ getSubstitution m pre suf r
         else if d = CHR 0x60 then pre @ getSubstitution m pre suf r
         else if d = CHR 0x27 then suf @ getSubstitution m pre suf r
         else c # getSubstitution m pre suf (d # r))
      else c # getSubstitution m pre suf (d # r))"

text \<open>
  The matches are found from left to right and do not overlap: after a match the search
  goes on behind it. \<open>pre\<close> is the part of the subject already passed. (An empty pattern
  matches before every character and at the end.)
\<close>

function replaceGlobal :: "string \<Rightarrow> string \<Rightarrow> string \<Rightarrow> string \<Rightarrow> string" where
  "replaceGlobal pat repl pre [] = (if pat = [] then getSubstitution [] pre [] repl else [])"
| "replaceGlobal pat repl pre (c # s) =
     (if startsWith (c # s) pat then
        (if pat = [] then
           getSubstitution [] pre (c # s) repl @ c # replaceGlobal pat repl (pre @ [c]) s
         else
           getSubstitution pat pre (drop (length pat) (c # s)) repl
             @ replaceGlobal pat repl (pre @ pat) (drop (length pat - 1) s))
      else c # replaceGlobal pat repl (pre @ [c]) s)"
  by pat_completeness auto
termination
  by (relation "measure (\<lambda>(pat, repl, pre, s). length s)") auto

section \<open>The platform\<close>

text \<open>
  What the browser computes is a parameter of the model: the text content of parsed
  markup (\<^verbatim>\<open>div.innerHTML = html; div.textContent\<close>), the date functions and the URI
  codecs. \<open>dateValue s\<close> is the time value of \<^verbatim>\<open>new Date(s)\<close> in milliseconds; the dates
  of the data model are calendar dates, so the time value is a number (an invalid date,
  whose time value is NaN, makes the comparator of \<^verbatim>\<open>sort\<close> inconsistent and the order
  implementation-defined). \<open>decodeURIComponent\<close> returns \<open>None\<close> where the built-in throws
  a URIError. \<open>formDecode\<close> is the percent-decoding \<^verbatim>\<open>URLSearchParams\<close> applies to a name
  or a value.
\<close>

record host =
  textContent :: "string \<Rightarrow> string"
  innerText :: "string \<Rightarrow> string"
  toLocaleDateString :: "string \<Rightarrow> string"
  dateValue :: "string \<Rightarrow> int"
  encodeURIComponent :: "string \<Rightarrow> string"
  decodeURIComponent :: "string \<Rightarrow> string option"
  formDecode :: "string \<Rightarrow> string"

section \<open>Utility functions\<close>

text \<open>\<^verbatim>\<open>calculateReadingTime\<close>: \<^verbatim>\<open>Math.ceil(words / 200)\<close>.\<close>

definition calculateReadingTime :: "string \<Rightarrow> nat" where
  "calculateReadingTime text' =
     (let wordsPerMinute = 200;
          words = whiteSpaceRuns False text' + 1
      in (words + (wordsPerMinute - 1)) div wordsPerMinute)"

definition formatDate :: "host \<Rightarrow> string \<Rightarrow> string" where
  "formatDate h dateString = toLocaleDateString h dateString"

text \<open>\<^verbatim>\<open>return div.textContent || div.innerText || ''\<close>: the empty string is falsy.\<close>

definition extractTextFromHTML :: "host \<Rightarrow> string \<Rightarrow> string" where
  "extractTextFromHTML h html =
     (if textContent h html \<noteq> [] then textContent h html
      else if innerText h html \<noteq> [] then innerText h html
      else [])"

definition generateExcerpt :: "host \<Rightarrow> string \<Rightarrow> string" where
  "generateExcerpt h content =
     (let maxLength = 150;
          text' = extractTextFromHTML h content
      in if length text' \<le> maxLength then text'
         else trim (take maxLength text') @ ''...'')"

definition placeholder :: "nat \<Rightarrow> string" where
  "placeholder n = ''{{photo'' @ string_of_nat n @ ''}}''"

definition imgTag :: "string \<Rightarrow> nat \<Rightarrow> string" where
  "imgTag photo n =
     ''<img src=\"'' @ photo @ ''\" alt=\"Blog image '' @ string_of_nat n
       @ ''\" class=\"w-full h-auto rounded-lg shadow-md my-4\" loading=\"lazy\">''"

text \<open>
  \<^verbatim>\<open>photos.forEach((photo, index) => ...)\<close>: one global replacement per photo, in order,
  each on the result of the one before. \<open>replacePhotosFrom index\<close> is the loop from
  \<open>index\<close> on.
\<close>

fun replacePhotosFrom :: "nat \<Rightarrow> string list \<Rightarrow> string \<Rightarrow> string" where
  "replacePhotosFrom index [] processedContent = processedContent"
| "replacePhotosFrom index (photo # rest) processedContent =
     replacePhotosFrom (index + 1) rest
       (replaceGlobal (placeholder (index + 1)) (imgTag photo (index + 1)) [] processedContent)"

definition replacePhotoPlaceholders :: "string \<Rightarrow> string list \<Rightarrow> string" where
  "replacePhotoPlaceholders content photos = replacePhotosFrom 0 photos content"

section \<open>Data model\<close>

text \<open>
  A post document is the JSON object of \<^verbatim>\<open>static/posts/<slug>.json\<close>. Its fields have
  the types of the data model: text, or a list of texts for \<^verbatim>\<open>photos\<close>; a field may be
  absent (\<open>None\<close>). \<^verbatim>\<open>tags\<close> is written as one comma-separated text or as an array.
\<close>

datatype tags_field = TagsString string | TagsArray "string list" | TagsAbsent

record post_doc =
  doc_slug :: "string option"
  doc_title :: "string option"
  doc_author :: "string option"
  doc_date :: "string option"
  doc_contents :: "string option"
  doc_category :: "string option"
  doc_tags :: tags_field
  doc_coverPhoto :: "string option"
  doc_photos :: "string list option"

text \<open>
  A post of the collection: the document, once validated, with the fields \<^verbatim>\<open>loadPost\<close>
  adds to it.
\<close>

record post =
  slug :: string
  title :: string
  author :: string
  date :: string
  contents :: string
  category :: "string option"
  tags :: tags_field
  coverPhoto :: "string option"
  photos :: "string list option"
  processedContent :: string
  excerpt :: string
  readingTime :: nat
  formattedDate :: string
  tagArray :: "string list"

text \<open>The index document \<^verbatim>\<open>static/posts/index.json\<close>; \<^verbatim>\<open>posts\<close> may be absent.\<close>

record index_doc =
  index_posts :: "string list option"

text \<open>
  The outcome of \<^verbatim>\<open>fetch(url)\<close>: the promise rejects (no network), or it resolves with a
  response that has the flag \<^verbatim>\<open>ok\<close> and a body; the body is \<open>None\<close> where
  \<^verbatim>\<open>response.json()\<close> rejects because the body is not JSON.
\<close>

datatype 'a response = Rejected | Response bool "'a option"

record network =
  indexResponse :: "index_doc response"
  postResponse :: "string \<Rightarrow> post_doc response"

datatype error =
    NetworkFailure
  | JsonSyntaxError
  | PostNotFound string
  | InvalidPostStructure string
  | URIError

section \<open>PostManager\<close>

text \<open>
  The two \<^verbatim>\<open>Set\<close>s are lists without duplicates in insertion order. The spinner that
  \<^verbatim>\<open>showLoading\<close> and \<^verbatim>\<open>hideLoading\<close> toggle is not part of the state.
\<close>

record post_manager =
  posts :: "post list"
  categories :: "string list"
  tagSet :: "string list"
  postsLoaded :: bool
  viewMode :: string

definition newPostManager :: post_manager where
  "newPostManager =
     \<lparr>posts = [], categories = [], tagSet = [], postsLoaded = False, viewMode = ''grid''\<rparr>"

definition set_add :: "string \<Rightarrow> string list \<Rightarrow> string list" where
  "set_add x xs = (if List.member xs x then xs else xs @ [x])"

text \<open>
  \<^verbatim>\<open>requiredFields.every(field => post.hasOwnProperty(field) && post[field])\<close>: the field
  is there and its text is not empty.
\<close>

definition truthy :: "string option \<Rightarrow> bool" where
  "truthy v = (case v of None \<Rightarrow> False | Some s \<Rightarrow> s \<noteq> [])"

definition validatePost :: "post_doc \<Rightarrow> bool" where
  "validatePost d =
     list_all truthy [doc_slug d, doc_title d, doc_author d, doc_date d, doc_contents d]"

definition postURL :: "string \<Rightarrow> string" where
  "postURL slug' = ''static/posts/'' @ slug' @ ''.json''"

definition indexURL :: string where
  "indexURL = ''static/posts/index.json''"

definition str :: "string option \<Rightarrow> string" where
  "str v = (case v of None \<Rightarrow> [] | Some s \<Rightarrow> s)"

definition tagsToArray :: "tags_field \<Rightarrow> string list" where
  "tagsToArray t =
     (case t of
        TagsString s \<Rightarrow> filter (\<lambda>tag. tag \<noteq> []) (map trim (split_on CHR '','' s))
      | TagsArray a \<Rightarrow> a
      | TagsAbsent \<Rightarrow> [])"

text \<open>The part of \<^verbatim>\<open>loadPost\<close> after the validation: the derived fields.\<close>

definition processPost :: "host \<Rightarrow> post_doc \<Rightarrow> post" where
  "processPost h d =
     \<lparr>slug = str (doc_slug d),
      title = str (doc_title d),
      author = str (doc_author d),
      date = str (doc_date d),
      contents = str (doc_contents d),
      category = doc_category d,
      tags = doc_tags d,
      coverPhoto = doc_coverPhoto d,
      photos = doc_photos d,
      processedContent =
        replacePhotoPlaceholders (str (doc_contents d))
          (case doc_photos d of None \<Rightarrow> [] | Some ps \<Rightarrow> ps),
      excerpt = generateExcerpt h (str (doc_contents d)),
      readingTime = calculateReadingTime (extractTextFromHTML h (str (doc_contents d))),
      formattedDate = formatDate h (str (doc_date d)),
      tagArray = tagsToArray (doc_tags d)\<rparr>"

text \<open>The body of the \<^verbatim>\<open>try\<close> block of \<^verbatim>\<open>loadPost\<close>, an error where it throws.\<close>

definition loadPost_try :: "network \<Rightarrow> host \<Rightarrow> string \<Rightarrow> error + post" where
  "loadPost_try net h slug' =
     (case postResponse net slug' of
        Rejected \<Rightarrow> Inl NetworkFailure
      | Response ok body \<Rightarrow>
          if \<not> ok then Inl (PostNotFound slug')
          else (case body of
                  None \<Rightarrow> Inl JsonSyntaxError
                | Some d \<Rightarrow>
                    if \<not> validatePost d then Inl (InvalidPostStructure slug')
                    else Inr (processPost h d)))"

text \<open>\<^verbatim>\<open>loadPost\<close>: the \<^verbatim>\<open>catch\<close> logs the error and returns \<^verbatim>\<open>null\<close>.\<close>

definition loadPost :: "network \<Rightarrow> host \<Rightarrow> string \<Rightarrow> post option" where
  "loadPost net h slug' =
     (case loadPost_try net h slug' of
        Inl e \<Rightarrow> None
      | Inr p \<Rightarrow> Some p)"

definition commonSlugs :: "string list" where
  "commonSlugs =
     [''welcome-to-my-blog'',
      ''getting-started-with-web-development'',
      ''javascript-best-practices'',
      ''css-tips-and-tricks'',
      ''my-development-setup'']"

text \<open>\<^verbatim>\<open>discoverPosts\<close>: the common slugs whose document answers with \<^verbatim>\<open>ok\<close>.\<close>

definition responds_ok :: "'a response \<Rightarrow> bool" where
  "responds_ok r = (case r of Rejected \<Rightarrow> False | Response ok body \<Rightarrow> ok)"

definition discoverPosts :: "network \<Rightarrow> string list" where
  "discoverPosts net = filter (\<lambda>slug'. responds_ok (postResponse net slug')) commonSlugs"

fun extractFrom :: "post list \<Rightarrow> post_manager \<Rightarrow> post_manager" where
  "extractFrom [] pm = pm"
| "extractFrom (p # ps) pm =
     extractFrom ps
       (pm\<lparr>categories :=
             (if truthy (category p) then set_add (str (category p)) (categories pm)
              else categories pm),
           tagSet := fold set_add (tagArray p) (tagSet pm)\<rparr>)"

definition extractCategoriesAndTags :: "post_manager \<Rightarrow> post_manager" where
  "extractCategoriesAndTags pm = extractFrom (posts pm) (pm\<lparr>categories := [], tagSet := []\<rparr>)"

text \<open>
  \<^verbatim>\<open>loadAllPosts\<close> returns what the caller of the \<^verbatim>\<open>async\<close> function gets (the
  collection, or the error the promise rejects with), the store after the call, and the
  URLs the call fetched, in order. \<open>loadSlugs\<close> is the part after the list of slugs is
  known.
\<close>

definition loadSlugs ::
  "network \<Rightarrow> host \<Rightarrow> post_manager \<Rightarrow> string list \<Rightarrow> string list
     \<Rightarrow> (error + post list) \<times> post_manager \<times> string list" where
  "loadSlugs net h pm fetched postSlugs =
     (let loaded = map (loadPost net h) postSlugs;
          pm1 = pm\<lparr>posts := map the (filter (\<lambda>p. p \<noteq> None) loaded)\<rparr>;
          pm2 = extractCategoriesAndTags pm1;
          pm3 = pm2\<lparr>postsLoaded := True\<rparr>
      in (Inr (posts pm3), pm3, fetched @ map postURL postSlugs))"

definition loadAllPosts ::
  "network \<Rightarrow> host \<Rightarrow> post_manager \<Rightarrow> (error + post list) \<times> post_manager \<times> string list" where
  "loadAllPosts net h pm =
     (if postsLoaded pm then (Inr (posts pm), pm, [])
      else (case indexResponse net of
              Rejected \<Rightarrow> (Inl NetworkFailure, pm, [indexURL])
            | Response ok body \<Rightarrow>
                if ok then
                  (case body of
                     None \<Rightarrow> (Inl JsonSyntaxError, pm, [indexURL])
                   | Some index \<Rightarrow>
                       loadSlugs net h pm [indexURL]
                         (case index_posts index of None \<Rightarrow> [] | Some l \<Rightarrow> l))
                else
                  loadSlugs net h pm ([indexURL] @ map postURL commonSlugs)
                    (discoverPosts net)))"

definition getPostBySlug :: "post_manager \<Rightarrow> string \<Rightarrow> post option" where
  "getPostBySlug pm slug' = find (\<lambda>post. slug post = slug') (posts pm)"

definition getPostsByCategory :: "post_manager \<Rightarrow> string \<Rightarrow> post list" where
  "getPostsByCategory pm category' = filter (\<lambda>post. category post = Some category') (posts pm)"

definition getPostsByTag :: "post_manager \<Rightarrow> string \<Rightarrow> post list" where
  "getPostsByTag pm tag = filter (\<lambda>post. List.member (tagArray post) tag) (posts pm)"

text \<open>
  \<^verbatim>\<open>Array.prototype.sort\<close> with a comparison function sorts the array in place and is
  stable: \<open>a\<close> goes behind \<open>b\<close> where \<^verbatim>\<open>compare(a, b) > 0\<close>, and elements that compare
  equal keep their order. It is modelled as the insertion sort that puts each element in
  front of the sorted rest.
\<close>

fun insertBy :: "('a \<Rightarrow> 'a \<Rightarrow> int) \<Rightarrow> 'a \<Rightarrow> 'a list \<Rightarrow> 'a list" where
  "insertBy compare a [] = [a]"
| "insertBy compare a (b # bs) =
     (if compare a b > 0 then b # insertBy compare a bs else a # b # bs)"

fun sortBy :: "('a \<Rightarrow> 'a \<Rightarrow> int) \<Rightarrow> 'a list \<Rightarrow> 'a list" where
  "sortBy compare [] = []"
| "sortBy compare (a # as) = insertBy compare a (sortBy compare as)"

text \<open>
  \<^verbatim>\<open>getLatestPosts\<close>: \<^verbatim>\<open>this.posts.sort(...)\<close> sorts the stored array itself, and
  \<^verbatim>\<open>slice(0, limit)\<close> copies its first \<open>limit\<close> elements; \<open>limit\<close> is a count (5 where
  the caller gives none). The function returns the slice and the store after the call.
\<close>

definition byDateDescending :: "host \<Rightarrow> post \<Rightarrow> post \<Rightarrow> int" where
  "byDateDescending h a b = dateValue h (date b) - dateValue h (date a)"

definition getLatestPosts :: "host \<Rightarrow> nat \<Rightarrow> post_manager \<Rightarrow> post list \<times> post_manager" where
  "getLatestPosts h limit pm =
     (let sorted = sortBy (byDateDescending h) (posts pm)
      in (take limit sorted, pm\<lparr>posts := sorted\<rparr>))"

definition searchMatch :: "host \<Rightarrow> string \<Rightarrow> post \<Rightarrow> bool" where
  "searchMatch h searchTerm post =
     (let titleMatch = includes_str (toLowerCase (title post)) searchTerm;
          contentMatch =
            includes_str (toLowerCase (extractTextFromHTML h (contents post))) searchTerm;
          tagMatch = list_ex (\<lambda>tag. includes_str (toLowerCase tag) searchTerm) (tagArray post);
          categoryMatch =
            (truthy (category post)
             \<and> includes_str (toLowerCase (str (category post))) searchTerm)
      in titleMatch \<or> contentMatch \<or> tagMatch \<or> categoryMatch)"

definition searchPosts :: "host \<Rightarrow> post_manager \<Rightarrow> string \<Rightarrow> post list" where
  "searchPosts h pm query =
     (let searchTerm = toLowerCase query
      in filter (searchMatch h searchTerm) (posts pm))"

section \<open>Router and SearchManager\<close>

text \<open>
  The parameter object of a route is a list of keys with their values, each key once, in
  the order the properties were set.
\<close>

type_synonym params = "(string \<times> string) list"

fun obj_set :: "string \<Rightarrow> string \<Rightarrow> params \<Rightarrow> params" where
  "obj_set k v [] = [(k, v)]"
| "obj_set k v ((k', v') # ps) = (if k' = k then (k, v) # ps else (k', v') # obj_set k v ps)"

text \<open>
  The state the router and the search manager work on: the post manager, the router's
  \<^verbatim>\<open>currentRoute\<close> and \<^verbatim>\<open>currentParams\<close>, \<^verbatim>\<open>window.location.hash\<close>, and the search
  manager's \<^verbatim>\<open>currentQuery\<close> and \<^verbatim>\<open>searchResults\<close>. Three logs record effects:
  \<open>hashWrites\<close> the values assigned to \<^verbatim>\<open>window.location.hash\<close>, \<open>handlerCalls\<close> the keys
  of the route handlers invoked, \<open>errorsShown\<close> the messages given to \<^verbatim>\<open>showError\<close>.
  The class changes on the navigation links and the sidebar are not part of the state.
\<close>

record app =
  postManager :: post_manager
  currentRoute :: "string option"
  currentParams :: params
  locationHash :: string
  hashWrites :: "string list"
  handlerCalls :: "string list"
  currentQuery :: string
  searchResults :: "post list"
  errorsShown :: "string list"

definition newApp :: app where
  "newApp =
     \<lparr>postManager = newPostManager, currentRoute = None, currentParams = [],
      locationHash = [], hashWrites = [], handlerCalls = [],
      currentQuery = [], searchResults = [], errorsShown = []\<rparr>"

text \<open>
  Assigning to \<^verbatim>\<open>window.location.hash\<close> drops one leading \<open>#\<close> of the value and
  parses the rest as a fragment: tabs and newlines are removed, and a control character,
  a space, \<open>"\<close>, \<open><\<close>, \<open>>\<close>, \<open>`\<close> and every code unit above \<open>~\<close> is percent-encoded.
  Reading it gives the fragment behind a \<open>#\<close>, or the empty string for an empty
  fragment.
\<close>

definition isTabOrNewline :: "char \<Rightarrow> bool" where
  "isTabOrNewline c = List.member [CHR 0x09, CHR 0x0A, CHR 0x0D] c"

definition inFragmentEncodeSet :: "char \<Rightarrow> bool" where
  "inFragmentEncodeSet c =
     ((of_char c :: nat) < 0x20 \<or> (of_char c :: nat) > 0x7E
      \<or> List.member [CHR 0x20, CHR 0x22, CHR ''<'', CHR ''>'', CHR 0x60] c)"

definition percentEncode :: "char \<Rightarrow> string" where
  "percentEncode c =
     [CHR ''%'', ''0123456789ABCDEF'' ! ((of_char c :: nat) div 16),
      ''0123456789ABCDEF'' ! ((of_char c :: nat) mod 16)]"

definition fragmentEncode :: "string \<Rightarrow> string" where
  "fragmentEncode s =
     concat (map (\<lambda>c. if inFragmentEncodeSet c then percentEncode c else [c])
               (filter (\<lambda>c. \<not> isTabOrNewline c) s))"

definition assignHash :: "string \<Rightarrow> string" where
  "assignHash v =
     (let input = (if startsWith v ''#'' then drop 1 v else v);
          fragment = fragmentEncode input
      in if fragment = [] then [] else ''#'' @ fragment)"

definition navigate :: "host \<Rightarrow> string \<Rightarrow> params \<Rightarrow> app \<Rightarrow> app" where
  "navigate h route params' a =
     (let url = ''#'' @ route;
          url = (if truthy (map_of params' ''slug'')
                 then url @ ''/'' @ str (map_of params' ''slug'') else url);
          url = (if truthy (map_of params' ''category'')
                 then url @ ''?category='' @ encodeURIComponent h (str (map_of params' ''category''))
                 else url);
          url = (if truthy (map_of params' ''tag'')
                 then url @ ''?tag='' @ encodeURIComponent h (str (map_of params' ''tag''))
                 else url);
          url = (if truthy (map_of params' ''q'')
                 then url @ ''?q='' @ encodeURIComponent h (str (map_of params' ''q''))
                 else url)
      in a\<lparr>currentRoute := Some route,
           currentParams := params',
           locationHash := assignHash url,
           hashWrites := hashWrites a @ [url]\<rparr>)"

definition routeKeys :: "string list" where
  "routeKeys = [''home'', ''posts'', ''post'', ''categories'', ''tags'', ''search'', ''about'', ''404'']"

text \<open>
  \<^verbatim>\<open>new URLSearchParams(init)\<close>: one leading \<open>?\<close> is dropped, the rest is cut at every
  \<open>&\<close>, an empty piece is skipped, a piece is cut at its first \<open>=\<close> into name and value,
  and in both every \<open>+\<close> becomes a space before the percent-decoding.
\<close>

definition plusToSpace :: "string \<Rightarrow> string" where
  "plusToSpace s = map (\<lambda>c. if c = CHR ''+'' then CHR '' '' else c) s"

definition parsePair :: "host \<Rightarrow> string \<Rightarrow> string \<times> string" where
  "parsePair h piece =
     (let name = takeWhile (\<lambda>c. c \<noteq> CHR ''='') piece;
          value = drop 1 (dropWhile (\<lambda>c. c \<noteq> CHR ''='') piece)
      in (formDecode h (plusToSpace name), formDecode h (plusToSpace value)))"

definition urlSearchParams :: "host \<Rightarrow> string \<Rightarrow> (string \<times> string) list" where
  "urlSearchParams h init =
     (let input = (if startsWith init ''?'' then drop 1 init else init)
      in map (parsePair h) (filter (\<lambda>piece. piece \<noteq> []) (split_on CHR ''&'' input)))"

text \<open>\<^verbatim>\<open>window.location.hash.split('?')[1] || ''\<close>.\<close>

definition queryPart :: "string \<Rightarrow> string" where
  "queryPart hash =
     (case split_on CHR ''?'' hash of
        a # b # rest \<Rightarrow> b
      | _ \<Rightarrow> [])"

text \<open>
  \<^verbatim>\<open>params.forEach((value, key) => { routeParams[key] = decodeURIComponent(value) })\<close>;
  a URIError of \<^verbatim>\<open>decodeURIComponent\<close> is not caught. Assigning a text to the key
  \<^verbatim>\<open>__proto__\<close> reaches the setter of \<^verbatim>\<open>Object.prototype\<close>, which ignores it.
\<close>

fun assignDecoded :: "host \<Rightarrow> (string \<times> string) list \<Rightarrow> params \<Rightarrow> error + params" where
  "assignDecoded h [] routeParams = Inr routeParams"
| "assignDecoded h ((key, value) # rest) routeParams =
     (case decodeURIComponent h value of
        None \<Rightarrow> Inl URIError
      | Some v \<Rightarrow>
          assignDecoded h rest
            (if key = ''__proto__'' then routeParams else obj_set key v routeParams))"

text \<open>
  The first half of \<^verbatim>\<open>handleRouteChange\<close>, up to \<^verbatim>\<open>targetRoute\<close> and \<^verbatim>\<open>routeParams\<close>:
  the route and the parameters read back from the fragment. \<open>path\<close> is the optional
  argument.
\<close>

definition resolveRoute :: "host \<Rightarrow> string option \<Rightarrow> app \<Rightarrow> error + (string \<times> params)" where
  "resolveRoute h path a =
     (let hash = (if truthy path then str path else drop 1 (locationHash a));
          segments = split_on CHR ''/'' hash;
          route = (case segments of [] \<Rightarrow> [] | r # pathParts \<Rightarrow> r);
          pathParts = drop 1 segments;
          params' = urlSearchParams h (queryPart (locationHash a));
          routeParams = (case pathParts of [] \<Rightarrow> [] | s # rest \<Rightarrow> [(''slug'', s)])
      in (case assignDecoded h params' routeParams of
            Inl e \<Rightarrow> Inl e
          | Inr routeParams' \<Rightarrow> Inr (if route \<noteq> [] then route else ''home'', routeParams')))"

text \<open>
  The table of handlers is a plain object, so \<^verbatim>\<open>this.routes[targetRoute]\<close> is also
  truthy for the properties it inherits from \<^verbatim>\<open>Object.prototype\<close>. All of them are
  functions but \<^verbatim>\<open>__proto__\<close>, which is the prototype object. Called with the route
  parameters as only argument, \<^verbatim>\<open>__defineGetter__\<close> and \<^verbatim>\<open>__defineSetter__\<close> throw
  a TypeError (no function is given), and the four functions that take a property key
  throw one where the parameters have a key \<^verbatim>\<open>toString\<close> of their own (the parameters
  then have no primitive value); the others return.
\<close>

definition inheritedFunctions :: "string list" where
  "inheritedFunctions =
     [''constructor'', ''hasOwnProperty'', ''isPrototypeOf'', ''propertyIsEnumerable'',
      ''toLocaleString'', ''toString'', ''valueOf'', ''__defineGetter__'',
      ''__defineSetter__'', ''__lookupGetter__'', ''__lookupSetter__'']"

definition inheritedCallThrows :: "string \<Rightarrow> params \<Rightarrow> bool" where
  "inheritedCallThrows key routeParams =
     (List.member [''__defineGetter__'', ''__defineSetter__''] key
      \<or> (List.member [''hasOwnProperty'', ''propertyIsEnumerable'',
                        ''__lookupGetter__'', ''__lookupSetter__''] key
          \<and> map_of routeParams ''toString'' \<noteq> None))"

text \<open>
  \<^verbatim>\<open>handleRouteChange\<close>: a route for which the table has a truthy entry becomes the
  current route and the entry is called; an error thrown by the call is caught and the
  handler of \<open>404\<close> is invoked. Any other route invokes the handler of \<open>404\<close>. What the
  handlers of the table render is not modelled.
\<close>

definition handleRouteChange :: "host \<Rightarrow> string option \<Rightarrow> app \<Rightarrow> error + app" where
  "handleRouteChange h path a =
     (case resolveRoute h path a of
        Inl e \<Rightarrow> Inl e
      | Inr (targetRoute, routeParams) \<Rightarrow>
          if List.member routeKeys targetRoute then
            Inr (a\<lparr>currentRoute := Some targetRoute,
                   currentParams := routeParams,
                   handlerCalls := handlerCalls a @ [targetRoute]\<rparr>)
          else if List.member inheritedFunctions targetRoute then
            Inr (a\<lparr>currentRoute := Some targetRoute,
                   currentParams := routeParams,
                   handlerCalls := handlerCalls a
                     @ (if inheritedCallThrows targetRoute routeParams
                        then [targetRoute, ''404''] else [targetRoute])\<rparr>)
          else if targetRoute = ''__proto__'' then
            Inr (a\<lparr>currentRoute := Some targetRoute,
                   currentParams := routeParams,
                   handlerCalls := handlerCalls a @ [''404'']\<rparr>)
          else Inr (a\<lparr>handlerCalls := handlerCalls a @ [''404'']\<rparr>))"

text \<open>
  \<^verbatim>\<open>SearchManager.handleSearch\<close> returns the state after the call and the URLs it
  fetched.
\<close>

definition handleSearch :: "network \<Rightarrow> host \<Rightarrow> string \<Rightarrow> app \<Rightarrow> app \<times> string list" where
  "handleSearch net h query a =
     (let trimmedQuery = trim query
      in if length trimmedQuery = 0 then (navigate h ''home'' [] a, [])
         else if length trimmedQuery < 2 then (a, [])
         else
           (let a1 = a\<lparr>currentQuery := trimmedQuery\<rparr>
            in (case loadAllPosts net h (postManager a1) of
                  (Inl e, pm, fetched) \<Rightarrow>
                    (a1\<lparr>postManager := pm,
                        errorsShown := errorsShown a1
                          @ [''An error occurred while searching. Please try again.'']\<rparr>,
                     fetched)
                | (Inr loaded, pm, fetched) \<Rightarrow>
                    (navigate h ''search'' [(''query'', trimmedQuery)]
                       (a1\<lparr>postManager := pm,
                           searchResults := searchPosts h pm trimmedQuery\<rparr>),
                     fetched))))"

section \<open>Notions of the specification\<close>

text \<open>
  The fetch of a post succeeded where the response is \<^verbatim>\<open>ok\<close> and its body is a
  document. A document carries the required fields where each of \<^verbatim>\<open>slug\<close>,
  \<^verbatim>\<open>title\<close>, \<^verbatim>\<open>author\<close>, \<^verbatim>\<open>date\<close> and \<^verbatim>\<open>contents\<close> is there and not empty. The
  survivors of a list of slugs are the documents fetched with success that carry the
  required fields, in the order of the list.
\<close>

definition fetchedDocument :: "network \<Rightarrow> string \<Rightarrow> post_doc option" where
  "fetchedDocument net slug' =
     (case postResponse net slug' of
        Response True (Some d) \<Rightarrow> Some d
      | _ \<Rightarrow> None)"

definition carriesRequiredFields :: "post_doc \<Rightarrow> bool" where
  "carriesRequiredFields d =
     (\<forall>field \<in> {doc_slug, doc_title, doc_author, doc_date, doc_contents}.
        \<exists>s. field d = Some s \<and> s \<noteq> [])"

definition survivors :: "network \<Rightarrow> string list \<Rightarrow> post_doc list" where
  "survivors net slugs = filter carriesRequiredFields (List.map_filter (fetchedDocument net) slugs)"

text \<open>
  The text \<open>q\<close> occurs in \<open>s\<close> up to the case of letters: a stretch of \<open>s\<close> is \<open>q\<close>
  once both are lowered. The search of the specification matches a post where the query
  occurs, up to case, in the title, in the plain text of the contents, in a tag or in the
  category.
\<close>

definition occursIgnoringCase :: "string \<Rightarrow> string \<Rightarrow> bool" where
  "occursIgnoringCase q s = (\<exists>u v w. s = u @ v @ w \<and> toLowerCase v = toLowerCase q)"

definition spec_searchMatch :: "host \<Rightarrow> string \<Rightarrow> post \<Rightarrow> bool" where
  "spec_searchMatch h q p =
     (occursIgnoringCase q (title p)
      \<or> occursIgnoringCase q (extractTextFromHTML h (contents p))
      \<or> (\<exists>t \<in> set (tagArray p). occursIgnoringCase q t)
      \<or> (\<exists>c. category p = Some c \<and> occursIgnoringCase q c))"

text \<open>
  What a page does with the store after the first load: it loads again, under the network
  of that moment, and it reads. \<open>session\<close> runs a sequence of such operations and gives
  the store after the last one and all the URLs fetched on the way. Of the reads only
  \<^verbatim>\<open>getLatestPosts\<close> gives a store back; \<^verbatim>\<open>getPostBySlug\<close>, \<^verbatim>\<open>getPostsByCategory\<close>,
  \<^verbatim>\<open>getPostsByTag\<close> and \<^verbatim>\<open>searchPosts\<close> are \<^verbatim>\<open>find\<close> and \<^verbatim>\<open>filter\<close> on the stored
  array and leave the store as it is.
\<close>

datatype operation =
    LoadAllPosts network
  | GetPostBySlug string
  | GetPostsByCategory string
  | GetPostsByTag string
  | GetLatestPosts nat
  | SearchPosts string

fun perform :: "host \<Rightarrow> operation \<Rightarrow> post_manager \<Rightarrow> post_manager \<times> string list" where
  "perform h (LoadAllPosts net) pm =
     (case loadAllPosts net h pm of (outcome, pm1, fetched) \<Rightarrow> (pm1, fetched))"
| "perform h (GetLatestPosts limit) pm = (snd (getLatestPosts h limit pm), [])"
| "perform h (GetPostBySlug slug') pm = (pm, [])"
| "perform h (GetPostsByCategory category') pm = (pm, [])"
| "perform h (GetPostsByTag tag) pm = (pm, [])"
| "perform h (SearchPosts query) pm = (pm, [])"

fun session :: "host \<Rightarrow> operation list \<Rightarrow> post_manager \<Rightarrow> post_manager \<times> string list" where
  "session h [] pm = (pm, [])"
| "session h (operation # operations) pm =
     (case perform h operation pm of
        (pm1, fetched) \<Rightarrow>
          (case session h operations pm1 of
             (pm2, fetched') \<Rightarrow> (pm2, fetched @ fetched')))"

definition sortsInPlace :: "operation \<Rightarrow> bool" where
  "sortsInPlace operation = (case operation of GetLatestPosts limit \<Rightarrow> True | _ \<Rightarrow> False)"

text \<open>
  The substitution of the specification, in one pass from left to right over the
  contents: where the token \<^verbatim>\<open>{{photoN}}\<close> stands, for an \<open>N\<close> that counts a photo
  (\<open>lo < N \<le> lo + length refs\<close>, with \<open>lo = 0\<close> for the whole list), the image element
  of that photo is put and the pass goes on behind the token; any other character is
  kept.
\<close>

definition tokenAt :: "nat \<Rightarrow> nat \<Rightarrow> string \<Rightarrow> nat option" where
  "tokenAt lo k s = find (\<lambda>n. startsWith s (placeholder n)) [lo + 1 ..< lo + 1 + k]"

function substituteTokens :: "nat \<Rightarrow> string list \<Rightarrow> string \<Rightarrow> string" where
  "substituteTokens lo refs [] = []"
| "substituteTokens lo refs (c # s) =
     (case tokenAt lo (length refs) (c # s) of
        None \<Rightarrow> c # substituteTokens lo refs s
      | Some n \<Rightarrow>
          imgTag (refs ! (n - lo - 1)) n
            @ substituteTokens lo refs (drop (length (placeholder n) - 1) s))"
  by pat_completeness auto
termination
  by (relation "measure (\<lambda>(lo, refs, s). length s)") auto

text \<open>The characters of a decimal numeral, and a token without its two opening braces.\<close>

definition digitChars :: "char set" where
  "digitChars = set ''0123456789''"

definition tokenBody :: "nat \<Rightarrow> string" where
  "tokenBody n = ''photo'' @ string_of_nat n @ ''}}''"

text \<open>A text that a fragment keeps as it is: no character of it is removed or encoded.\<close>

definition keptInFragment :: "string \<Rightarrow> bool" where
  "keptInFragment s = list_all (\<lambda>c. \<not> isTabOrNewline c \<and> \<not> inFragmentEncodeSet c) s"

text \<open>How recent a post is: the time value of its date.\<close>

definition recency :: "host \<Rightarrow> post \<Rightarrow> int" where
  "recency h p = dateValue h (date p)"

section \<open>Example data\<close>

text \<open>
  A platform for the examples: the text content of markup is what stands outside of
  \<open><\<close>...\<open>>\<close>, a date \<^verbatim>\<open>YYYY-MM-DD\<close> has the number of its digits as time value, and
  the URI codecs leave a text as it is, as the built-in ones do on letters and digits.
\<close>

fun stripTags :: "bool \<Rightarrow> string \<Rightarrow> string" where
  "stripTags inTag [] = []"
| "stripTags inTag (c # s) =
     (if c = CHR ''<'' then stripTags True s
      else if c = CHR ''>'' then stripTags False s
      else if inTag then stripTags inTag s
      else c # stripTags inTag s)"

definition digitsValue :: "string \<Rightarrow> int" where
  "digitsValue s =
     foldl (\<lambda>n c. case map_of (zip ''0123456789'' [0, 1, 2, 3, 4, 5, 6, 7, 8, 9]) c of
                     Some d \<Rightarrow> 10 * n + d
                   | None \<Rightarrow> n) 0 s"

definition exampleHost :: host where
  "exampleHost =
     \<lparr>textContent = stripTags False, innerText = stripTags False,
      toLocaleDateString = (\<lambda>s. s), dateValue = digitsValue,
      encodeURIComponent = (\<lambda>s. s), decodeURIComponent = Some, formDecode = (\<lambda>s. s)\<rparr>"

definition docA :: post_doc where
  "docA =
     \<lparr>doc_slug = Some ''a'', doc_title = Some ''Learn JavaScript'', doc_author = Some ''Niaz'',
      doc_date = Some ''2025-09-01'', doc_contents = Some ''<p>{{photo1}}</p>'',
      doc_category = Some ''Web'', doc_tags = TagsString ''js, tutorial'',
      doc_coverPhoto = None, doc_photos = Some [''x.jpg'']\<rparr>"

definition docC :: post_doc where
  "docC =
     \<lparr>doc_slug = Some ''c'', doc_title = Some ''Grid layout'', doc_author = Some ''Niaz'',
      doc_date = Some ''2025-10-05'', doc_contents = Some ''<p>Rows and columns</p>'',
      doc_category = Some ''Design'', doc_tags = TagsArray [''css''],
      doc_coverPhoto = None, doc_photos = None\<rparr>"

text \<open>A document without title.\<close>

definition docD :: post_doc where
  "docD = docC\<lparr>doc_slug := Some ''d'', doc_title := None\<rparr>"

text \<open>The index lists four slugs; \<open>b\<close> answers 404 and \<open>d\<close> has no title.\<close>

definition exampleNetwork :: network where
  "exampleNetwork =
     \<lparr>indexResponse = Response True (Some \<lparr>index_posts = Some [''a'', ''b'', ''c'', ''d'']\<rparr>),
      postResponse = (\<lambda>s. if s = ''a'' then Response True (Some docA)
                          else if s = ''c'' then Response True (Some docC)
                          else if s = ''d'' then Response True (Some docD)
                          else Response False None)\<rparr>"

definition loadedManager :: post_manager where
  "loadedManager = fst (snd (loadAllPosts exampleNetwork exampleHost newPostManager))"

text \<open>
  Five documents with distinct dates, listed by the index in an order that is not the
  order of the dates, and the store that loading them gives.
\<close>

definition exampleDoc :: "string \<Rightarrow> string \<Rightarrow> string \<Rightarrow> post_doc" where
  "exampleDoc slug' date' category' =
     \<lparr>doc_slug = Some slug', doc_title = Some (''Post '' @ slug'), doc_author = Some ''Niaz'',
      doc_date = Some date', doc_contents = Some ''<p>Text</p>'',
      doc_category = Some category', doc_tags = TagsArray [''js''],
      doc_coverPhoto = None, doc_photos = None\<rparr>"

definition examplePost :: "string \<Rightarrow> string \<Rightarrow> string \<Rightarrow> post" where
  "examplePost slug' date' category' = processPost exampleHost (exampleDoc slug' date' category')"

definition fiveNetwork :: network where
  "fiveNetwork =
     \<lparr>indexResponse =
        Response True (Some \<lparr>index_posts = Some [''p1'', ''p2'', ''p3'', ''p4'', ''p5'']\<rparr>),
      postResponse =
        (\<lambda>s. if s = ''p1'' then Response True (Some (exampleDoc ''p1'' ''2025-01-15'' ''Web''))
             else if s = ''p2'' then Response True (Some (exampleDoc ''p2'' ''2025-03-01'' ''Web''))
             else if s = ''p3'' then Response True (Some (exampleDoc ''p3'' ''2025-05-20'' ''Design''))
             else if s = ''p4'' then Response True (Some (exampleDoc ''p4'' ''2024-12-31'' ''Design''))
             else if s = ''p5'' then Response True (Some (exampleDoc ''p5'' ''2025-04-02'' ''Design''))
             else Response False None)\<rparr>"

definition fiveManager :: post_manager where
  "fiveManager = fst (snd (loadAllPosts fiveNetwork exampleHost newPostManager))"

text \<open>
  Three more networks: one where every fetch rejects, one whose index is not JSON, and one
  whose index answers 404 while the first of the common slugs has a document.
\<close>

definition offlineNetwork :: network where
  "offlineNetwork = \<lparr>indexResponse = Rejected, postResponse = (\<lambda>s. Rejected)\<rparr>"

definition brokenIndexNetwork :: network where
  "brokenIndexNetwork = exampleNetwork\<lparr>indexResponse := Response True None\<rparr>"

definition docW :: post_doc where
  "docW = exampleDoc ''welcome-to-my-blog'' ''2025-09-01'' ''Web''"

definition noIndexNetwork :: network where
  "noIndexNetwork =
     \<lparr>indexResponse = Response False None,
      postResponse = (\<lambda>s. if s = ''welcome-to-my-blog'' then Response True (Some docW)
                          else Response False None)\<rparr>"

section \<open>Loading the collection\<close>

lemma truthy_iff: "truthy v \<longleftrightarrow> (\<exists>s. v = Some s \<and> s \<noteq> [])"
  by (cases v) (simp_all add: truthy_def)

lemma validatePost_iff: "validatePost d \<longleftrightarrow> carriesRequiredFields d"
  by (simp add: validatePost_def carriesRequiredFields_def truthy_iff)

lemma loadPost_cases:
  "loadPost net h s =
     (case fetchedDocument net s of
        None \<Rightarrow> None
      | Some d \<Rightarrow> if carriesRequiredFields d then Some (processPost h d) else None)"
  by (simp add: loadPost_def loadPost_try_def fetchedDocument_def validatePost_iff
      split: response.split option.split bool.split)

lemma loaded_survivors:
  "map the (filter (\<lambda>p. p \<noteq> None) (map (loadPost net h) slugs))
     = map (processPost h) (survivors net slugs)"
  unfolding survivors_def
  by (induction slugs) (simp_all add: loadPost_cases map_filter_simps split: option.split)

lemma posts_extractFrom: "posts (extractFrom ps pm) = posts pm"
  by (induction ps arbitrary: pm) simp_all

lemma posts_extractCategoriesAndTags: "posts (extractCategoriesAndTags pm) = posts pm"
  by (simp add: extractCategoriesAndTags_def posts_extractFrom)

lemma loadSlugs_result:
  "loadSlugs net h pm fetched slugs =
     (Inr (map (processPost h) (survivors net slugs)),
      (extractCategoriesAndTags (pm\<lparr>posts := map (processPost h) (survivors net slugs)\<rparr>))
        \<lparr>postsLoaded := True\<rparr>,
      fetched @ map postURL slugs)"
  unfolding loadSlugs_def Let_def loaded_survivors
  by (simp add: posts_extractCategoriesAndTags)

lemma example_survivors: "survivors exampleNetwork [''a'', ''b'', ''c'', ''d''] = [docA, docC]"
  by (simp add: survivors_def fetchedDocument_def exampleNetwork_def
      carriesRequiredFields_def docA_def docC_def docD_def)

lemma posts_loadedManager:
  "posts loadedManager = [processPost exampleHost docA, processPost exampleHost docC]"
  by (simp add: loadedManager_def loadAllPosts_def newPostManager_def exampleNetwork_def
      loadSlugs_result posts_extractCategoriesAndTags
      example_survivors [unfolded exampleNetwork_def])

text \<open>
  C1. Where the index document is fetched and lists slugs, \<^verbatim>\<open>loadAllPosts\<close> on a store
  not yet loaded returns a collection, not an error: the posts of exactly those slugs
  whose fetch succeeded and whose document carries a non-empty slug, title, author, date
  and contents, in the order of the index. That collection is stored and the store is
  marked as loaded. A slug whose fetch fails or whose document fails the validation
  contributes nothing, and takes no other post with it.
\<close>

theorem loadAllPosts_partial_failure:
  assumes "\<not> postsLoaded pm"
    and "indexResponse net = Response True (Some index)"
    and "index_posts index = Some slugs"
  shows "fst (loadAllPosts net h pm) = Inr (map (processPost h) (survivors net slugs))
    \<and> posts (fst (snd (loadAllPosts net h pm))) = map (processPost h) (survivors net slugs)
    \<and> postsLoaded (fst (snd (loadAllPosts net h pm)))"
  using assms
  by (simp add: loadAllPosts_def loadSlugs_result posts_extractCategoriesAndTags)

theorem loadAllPosts_partial_failure_witness:
  "\<not> postsLoaded newPostManager
   \<and> indexResponse exampleNetwork
       = Response True (Some \<lparr>index_posts = Some [''a'', ''b'', ''c'', ''d'']\<rparr>)
   \<and> survivors exampleNetwork [''a'', ''b'', ''c'', ''d''] = [docA, docC]
   \<and> fst (loadAllPosts exampleNetwork exampleHost newPostManager)
       = Inr [processPost exampleHost docA, processPost exampleHost docC]"
proof -
  have 1: "\<not> postsLoaded newPostManager"
    by (simp add: newPostManager_def)
  have 2: "indexResponse exampleNetwork
      = Response True (Some \<lparr>index_posts = Some [''a'', ''b'', ''c'', ''d'']\<rparr>)"
    by (simp add: exampleNetwork_def)
  have 3: "index_posts \<lparr>index_posts = Some [''a'', ''b'', ''c'', ''d'']\<rparr>
      = Some [''a'', ''b'', ''c'', ''d'']"
    by simp
  from loadAllPosts_partial_failure [OF 1 2 3, of exampleHost] 1 2 example_survivors
  show ?thesis by simp
qed

section \<open>Searching the collection\<close>

lemma startsWith_iff: "startsWith s t \<longleftrightarrow> (\<exists>w. s = t @ w)"
  by (induction s t rule: startsWith.induct) auto

lemma includes_str_Nil: "includes_str s []"
  by (cases s) simp_all

lemma includes_str_iff: "includes_str s t \<longleftrightarrow> (\<exists>u w. s = u @ t @ w)"
proof (induction s)
  case Nil
  then show ?case by auto
next
  case (Cons a s)
  show ?case
  proof
    assume "includes_str (a # s) t"
    then consider "startsWith (a # s) t" | "includes_str s t" by auto
    then show "\<exists>u w. a # s = u @ t @ w"
    proof cases
      case 1
      then obtain w where "a # s = t @ w" using startsWith_iff by blast
      then have "a # s = [] @ t @ w" by simp
      then show ?thesis by blast
    next
      case 2
      then obtain u w where "s = u @ t @ w" using Cons.IH by blast
      then have "a # s = (a # u) @ t @ w" by simp
      then show ?thesis by blast
    qed
  next
    assume "\<exists>u w. a # s = u @ t @ w"
    then obtain u w where e: "a # s = u @ t @ w" by blast
    show "includes_str (a # s) t"
    proof (cases u)
      case Nil
      with e have "startsWith (a # s) t" using startsWith_iff by auto
      then show ?thesis by simp
    next
      case (Cons b u')
      with e have "s = u' @ t @ w" by simp
      then have "includes_str s t" using Cons.IH by blast
      then show ?thesis by simp
    qed
  qed
qed

lemma includes_lower_iff:
  "includes_str (toLowerCase s) (toLowerCase q) \<longleftrightarrow> occursIgnoringCase q s"
proof
  assume "includes_str (toLowerCase s) (toLowerCase q)"
  then obtain u w where "map toLowerChar s = u @ map toLowerChar q @ w"
    unfolding includes_str_iff toLowerCase_def by blast
  from this [THEN map_eq_append_conv [THEN iffD1]]
  obtain a r where s: "s = a @ r" and r: "map toLowerChar r = map toLowerChar q @ w"
    by auto
  from r [THEN map_eq_append_conv [THEN iffD1]]
  obtain b c where "r = b @ c" and "map toLowerChar b = map toLowerChar q"
    by auto
  with s have "s = a @ b @ c \<and> toLowerCase b = toLowerCase q"
    by (simp add: toLowerCase_def)
  then show "occursIgnoringCase q s"
    unfolding occursIgnoringCase_def by blast
next
  assume "occursIgnoringCase q s"
  then obtain u v w where "s = u @ v @ w" and "toLowerCase v = toLowerCase q"
    unfolding occursIgnoringCase_def by blast
  then have "toLowerCase s = toLowerCase u @ toLowerCase q @ toLowerCase w"
    by (simp add: toLowerCase_def)
  then show "includes_str (toLowerCase s) (toLowerCase q)"
    unfolding includes_str_iff by blast
qed

lemma occursIgnoringCase_empty: "occursIgnoringCase [] s"
  unfolding occursIgnoringCase_def by (rule exI [of _ "[]"], rule exI [of _ "[]"]) simp

lemma occursIgnoringCase_in_empty: "occursIgnoringCase q [] \<Longrightarrow> q = []"
  unfolding occursIgnoringCase_def toLowerCase_def by auto

lemma searchMatch_iff: "searchMatch h (toLowerCase q) p \<longleftrightarrow> spec_searchMatch h q p"
proof -
  have cat: "occursIgnoringCase q (title p)
      \<or> (truthy (category p) \<and> occursIgnoringCase q (str (category p)))
      \<longleftrightarrow> occursIgnoringCase q (title p) \<or> (\<exists>c. category p = Some c \<and> occursIgnoringCase q c)"
  proof (cases "category p")
    case None
    then show ?thesis by (simp add: truthy_def)
  next
    case (Some c)
    show ?thesis
    proof (cases "c = []")
      case True
      with Some show ?thesis
        using occursIgnoringCase_in_empty [of q] occursIgnoringCase_empty [of "title p"]
        by (auto simp: truthy_def)
    next
      case False
      with Some show ?thesis by (simp add: truthy_def str_def)
    qed
  qed
  have "searchMatch h (toLowerCase q) p \<longleftrightarrow>
      (occursIgnoringCase q (title p)
        \<or> (truthy (category p) \<and> occursIgnoringCase q (str (category p))))
      \<or> occursIgnoringCase q (extractTextFromHTML h (contents p))
      \<or> (\<exists>t \<in> set (tagArray p). occursIgnoringCase q t)"
    by (simp only: searchMatch_def Let_def includes_lower_iff list_ex_iff) blast
  also have "\<dots> \<longleftrightarrow> spec_searchMatch h q p"
    by (simp only: cat spec_searchMatch_def) blast
  finally show ?thesis .
qed

text \<open>
  C6. \<^verbatim>\<open>searchPosts\<close> returns exactly the posts of the collection in which the query
  occurs, up to the case of letters, in the title, in the plain text of the contents, in
  a tag or in the category, and it returns them in the order of the collection. This
  holds for every query, so for those of at least two characters.
\<close>

theorem searchPosts_case_insensitive:
  "searchPosts h pm query = filter (spec_searchMatch h query) (posts pm)"
  unfolding searchPosts_def Let_def using searchMatch_iff [of h query] by presburger

theorem searchPosts_case_insensitive_witness:
  "2 \<le> length ''JAVASCRIPT''
   \<and> filter (spec_searchMatch exampleHost ''JAVASCRIPT'') (posts loadedManager)
       = [processPost exampleHost docA]
   \<and> filter (spec_searchMatch exampleHost ''design'') (posts loadedManager)
       = [processPost exampleHost docC]"
proof -
  have 1: "searchPosts exampleHost loadedManager ''JAVASCRIPT'' = [processPost exampleHost docA]"
    unfolding searchPosts_def posts_loadedManager by code_simp
  have 2: "searchPosts exampleHost loadedManager ''design'' = [processPost exampleHost docC]"
    unfolding searchPosts_def posts_loadedManager by code_simp
  from 1 2 searchPosts_case_insensitive [of exampleHost loadedManager]
  show ?thesis by simp
qed

text \<open>
  C10. \<^verbatim>\<open>searchPosts\<close> with the empty query returns the whole collection: the empty
  text occurs in every title.
\<close>

theorem searchPosts_empty_query: "searchPosts h pm [] = posts pm"
  by (simp add: searchPosts_def searchMatch_def toLowerCase_def includes_str_Nil)

theorem searchPosts_empty_query_witness:
  "posts loadedManager \<noteq> []
   \<and> searchPosts exampleHost loadedManager []
       = [processPost exampleHost docA, processPost exampleHost docC]"
  using searchPosts_empty_query [of exampleHost loadedManager] posts_loadedManager
  by simp

section \<open>The latest posts\<close>

lemma insertBy_insort_key:
  "insertBy (byDateDescending h) a bs = insort_key (\<lambda>p. - recency h p) a bs"
  by (induction bs) (simp_all add: byDateDescending_def recency_def)

lemma sortBy_sort_key:
  "sortBy (byDateDescending h) xs = sort_key (\<lambda>p. - recency h p) xs"
  by (induction xs) (simp_all add: insertBy_insort_key sort_key_def)

lemma fst_getLatestPosts:
  "fst (getLatestPosts h n pm) = take n (sort_key (\<lambda>p. - recency h p) (posts pm))"
  by (simp add: getLatestPosts_def Let_def sortBy_sort_key)

lemma snd_getLatestPosts:
  "snd (getLatestPosts h n pm) = pm\<lparr>posts := sort_key (\<lambda>p. - recency h p) (posts pm)\<rparr>"
  by (simp add: getLatestPosts_def Let_def sortBy_sort_key)

lemma take_sorted_descending:
  assumes "sorted (map (\<lambda>p. - recency h p) S)"
  shows "sorted_wrt (\<lambda>a b. recency h b \<le> recency h a) (take n S)"
proof -
  have "sorted (map (\<lambda>p. - recency h p) (take n S))"
    using assms by (simp add: take_map [symmetric] sorted_wrt_take)
  then show ?thesis by (simp add: sorted_wrt_map)
qed

lemma take_dominates_drop:
  assumes "sorted (map (\<lambda>p. - recency h p) S)" and "a \<in> set (take n S)" and "b \<in> set (drop n S)"
  shows "recency h b \<le> recency h a"
proof -
  have "sorted (map (\<lambda>p. - recency h p) (take n S @ drop n S))"
    using assms(1) by simp
  then have "- recency h a \<le> - recency h b"
    using assms(2,3) unfolding map_append sorted_append by auto 
  then show ?thesis by simp
qed

lemma mset_minus_take:
  "mset S - mset (take n S) = mset (drop n S)"
proof -
  have "mset S = mset (take n S) + mset (drop n S)"
    by (metis append_take_drop_id mset_append)
  then show ?thesis by simp
qed

lemma strictly_descending:
  "sorted_wrt (\<lambda>a b. f b \<le> (f a :: int)) xs \<Longrightarrow> distinct (map f xs)
     \<Longrightarrow> sorted_wrt (\<lambda>a b. f b < f a) xs"
proof (induction xs)
  case Nil
  then show ?case by simp
next
  case (Cons a xs)
  from Cons.prems(2) have "f a \<notin> f ` set xs" by simp
  then have ne: "\<forall>x \<in> set xs. f x \<noteq> f a" by (metis imageI)
  from Cons.prems have "sorted_wrt (\<lambda>a b. f b \<le> f a) xs" and "distinct (map f xs)"
    and le: "\<forall>x \<in> set xs. f x \<le> f a" by simp_all
  then have "sorted_wrt (\<lambda>a b. f b < f a) xs" using Cons.IH by blast
  with ne le show ?case by (simp add: less_le)
qed

lemma latest_general:
  fixes h n pm
  defines "r \<equiv> fst (getLatestPosts h n pm)"
  shows "r = take n (sort_key (\<lambda>p. - recency h p) (posts pm))"
    and "length r = min n (length (posts pm))"
    and "sorted_wrt (\<lambda>a b. recency h b \<le> recency h a) r"
    and "mset r \<subseteq># mset (posts pm)"
    and "\<forall>a \<in> set r. \<forall>b \<in># mset (posts pm) - mset r. recency h b \<le> recency h a"
proof -
  let ?S = "sort_key (\<lambda>p. - recency h p) (posts pm)"
  have sorted: "sorted (map (\<lambda>p. - recency h p) ?S)"
    by (rule sorted_sort_key)
  show r: "r = take n ?S"
    unfolding r_def by (rule fst_getLatestPosts)
  show "length r = min n (length (posts pm))"
    unfolding r by (simp add: min.commute)
  show "sorted_wrt (\<lambda>a b. recency h b \<le> recency h a) r"
    unfolding r using sorted by (rule take_sorted_descending)
  have split: "mset (posts pm) = mset r + mset (drop n ?S)"
    unfolding r by (metis append_take_drop_id mset_append mset_sort)
  then show "mset r \<subseteq># mset (posts pm)"
    by simp
  from split have rest: "mset (posts pm) - mset r = mset (drop n ?S)"
    by simp
  show "\<forall>a \<in> set r. \<forall>b \<in># mset (posts pm) - mset r. recency h b \<le> recency h a"
    unfolding rest using take_dominates_drop [OF sorted] by (simp add: r)
qed

lemma latest_distinct:
  fixes h n pm
  defines "r \<equiv> fst (getLatestPosts h n pm)"
  assumes d: "distinct (map (recency h) (posts pm))"
  shows "sorted_wrt (\<lambda>a b. recency h b < recency h a) r"
    and "set r \<subseteq> set (posts pm)"
    and "\<forall>a \<in> set r. \<forall>b \<in> set (posts pm) - set r. recency h b < recency h a"
proof -
  let ?S = "sort_key (\<lambda>p. - recency h p) (posts pm)"
  have sorted: "sorted (map (\<lambda>p. - recency h p) ?S)"
    by (rule sorted_sort_key)
  have r: "r = take n ?S"
    unfolding r_def by (rule fst_getLatestPosts)
  have "mset (map (recency h) ?S) = mset (map (recency h) (posts pm))"
    by simp
  then have dS: "distinct (map (recency h) ?S)"
    using d mset_eq_imp_distinct_iff by blast
  then have inj: "inj_on (recency h) (set ?S)"
    by (simp add: distinct_map)
  have "distinct (map (recency h) r)"
    unfolding r take_map [symmetric] using dS by (rule distinct_take)
  with latest_general(3) [of h n pm]
  show "sorted_wrt (\<lambda>a b. recency h b < recency h a) r"
    unfolding r_def by (rule strictly_descending)
  show sub: "set r \<subseteq> set (posts pm)"
    unfolding r using set_take_subset [of n ?S] by simp
  show "\<forall>a \<in> set r. \<forall>b \<in> set (posts pm) - set r. recency h b < recency h a"
  proof (intro ballI)
    fix a b
    assume a: "a \<in> set r" and b: "b \<in> set (posts pm) - set r"
    have "set ?S = set (take n ?S) \<union> set (drop n ?S)"
      by (metis append_take_drop_id set_append)
    with b have bd: "b \<in> set (drop n ?S)"
      unfolding r by auto
    from a have at: "a \<in> set (take n ?S)"
      unfolding r .
    have le: "recency h b \<le> recency h a"
      using take_dominates_drop [OF sorted at bd] .
    have "a \<noteq> b" using a b by auto
    moreover have "a \<in> set ?S" using at set_take_subset [of n ?S] by blast
    moreover have "b \<in> set ?S" using b by simp
    ultimately have "recency h a \<noteq> recency h b"
      using inj by (auto dest: inj_onD)
    with le show "recency h b < recency h a" by simp
  qed
qed

text \<open>
  C5. For every collection and every \<open>n\<close>, \<^verbatim>\<open>getLatestPosts\<close> returns the first \<open>n\<close>
  posts of the collection sorted by descending date (the stable sort on the negated time
  value): the result has \<open>min n (length (posts pm))\<close> posts, they are in descending order
  of date, they are posts of the collection, and every post left out is no more recent
  than any post returned. In particular, on five posts with distinct dates and \<open>n = 3\<close>
  the result is three posts of the collection in strictly descending order of date, each
  more recent than every post left out.
\<close>

theorem getLatestPosts_sorted_truncated:
  "fst (getLatestPosts h n pm) = take n (sort_key (\<lambda>p. - recency h p) (posts pm))
   \<and> length (fst (getLatestPosts h n pm)) = min n (length (posts pm))
   \<and> sorted_wrt (\<lambda>a b. recency h b \<le> recency h a) (fst (getLatestPosts h n pm))
   \<and> mset (fst (getLatestPosts h n pm)) \<subseteq># mset (posts pm)
   \<and> (\<forall>a \<in> set (fst (getLatestPosts h n pm)).
        \<forall>b \<in># mset (posts pm) - mset (fst (getLatestPosts h n pm)).
          recency h b \<le> recency h a)
   \<and> (length (posts pm) = 5 \<and> distinct (map (recency h) (posts pm)) \<longrightarrow>
        length (fst (getLatestPosts h 3 pm)) = 3
        \<and> sorted_wrt (\<lambda>a b. recency h b < recency h a) (fst (getLatestPosts h 3 pm))
        \<and> set (fst (getLatestPosts h 3 pm)) \<subseteq> set (posts pm)
        \<and> (\<forall>a \<in> set (fst (getLatestPosts h 3 pm)).
             \<forall>b \<in> set (posts pm) - set (fst (getLatestPosts h 3 pm)).
               recency h b < recency h a))"
  using latest_general [of h n pm] latest_distinct [of h pm 3] latest_general(2) [of h 3 pm]
  by simp


lemma posts_fiveManager:
  "posts fiveManager =
     [examplePost ''p1'' ''2025-01-15'' ''Web'',
      examplePost ''p2'' ''2025-03-01'' ''Web'',
      examplePost ''p3'' ''2025-05-20'' ''Design'',
      examplePost ''p4'' ''2024-12-31'' ''Design'',
      examplePost ''p5'' ''2025-04-02'' ''Design'']"
  unfolding fiveManager_def examplePost_def by code_simp

lemma recency_examplePost: "recency exampleHost (examplePost s d c) = digitsValue d"
  by (simp add: recency_def examplePost_def processPost_def exampleDoc_def exampleHost_def str_def)

lemma slug_examplePost: "slug (examplePost s d c) = s"
  by (simp add: examplePost_def processPost_def exampleDoc_def str_def)

lemma category_examplePost: "category (examplePost s d c) = Some c"
  by (simp add: examplePost_def processPost_def exampleDoc_def)

lemma dv: "digitsValue ''2025-01-15'' = 20250115" "digitsValue ''2025-03-01'' = 20250301"
  "digitsValue ''2025-05-20'' = 20250520" "digitsValue ''2024-12-31'' = 20241231"
  "digitsValue ''2025-04-02'' = 20250402"
  by (simp_all add: digitsValue_def)

lemma latest_five:
  "fst (getLatestPosts exampleHost 3 fiveManager) =
     [examplePost ''p3'' ''2025-05-20'' ''Design'',
      examplePost ''p5'' ''2025-04-02'' ''Design'',
      examplePost ''p2'' ''2025-03-01'' ''Web'']"
  by (simp add: fst_getLatestPosts posts_fiveManager recency_examplePost dv)

theorem getLatestPosts_sorted_truncated_witness:
  "length (posts fiveManager) = 5
   \<and> distinct (map (recency exampleHost) (posts fiveManager))
   \<and> fst (getLatestPosts exampleHost 3 fiveManager) =
       [examplePost ''p3'' ''2025-05-20'' ''Design'',
        examplePost ''p5'' ''2025-04-02'' ''Design'',
        examplePost ''p2'' ''2025-03-01'' ''Web'']
   \<and> sorted_wrt (\<lambda>a b. recency exampleHost b < recency exampleHost a)
        (fst (getLatestPosts exampleHost 3 fiveManager))"
proof -
  have 1: "length (posts fiveManager) = 5"
    by (simp add: posts_fiveManager)
  have 2: "distinct (map (recency exampleHost) (posts fiveManager))"
    by (simp add: posts_fiveManager recency_examplePost dv)
  from getLatestPosts_sorted_truncated [of exampleHost 3 fiveManager] 1 2
  have "sorted_wrt (\<lambda>a b. recency exampleHost b < recency exampleHost a)
      (fst (getLatestPosts exampleHost 3 fiveManager))"
    by blast
  with 1 2 latest_five show ?thesis by blast
qed

text \<open>
  C8. The claim that no read operation changes the stored collection fails for
  \<^verbatim>\<open>getLatestPosts\<close>, which sorts the stored array itself. On the five example posts,
  listed by the index as \<open>p1\<close>, ..., \<open>p5\<close>, the posts of the category \<open>Web\<close> are
  \<open>p1, p2\<close> in index order; after \<^verbatim>\<open>getLatestPosts(3)\<close> the store holds
  \<open>p3, p5, p2, p1, p4\<close> and \<^verbatim>\<open>getPostsByCategory\<close> returns \<open>p2, p1\<close>.
\<close>

theorem getLatestPosts_reorders_collection:
  "getPostsByCategory fiveManager ''Web''
     = [examplePost ''p1'' ''2025-01-15'' ''Web'', examplePost ''p2'' ''2025-03-01'' ''Web'']
   \<and> getPostsByCategory (snd (getLatestPosts exampleHost 3 fiveManager)) ''Web''
     = [examplePost ''p2'' ''2025-03-01'' ''Web'', examplePost ''p1'' ''2025-01-15'' ''Web'']
   \<and> map slug (posts fiveManager) = [''p1'', ''p2'', ''p3'', ''p4'', ''p5'']
   \<and> map slug (posts (snd (getLatestPosts exampleHost 3 fiveManager)))
     = [''p3'', ''p5'', ''p2'', ''p1'', ''p4'']"
  by (simp add: getPostsByCategory_def snd_getLatestPosts posts_fiveManager
      recency_examplePost dv category_examplePost slug_examplePost)

section \<open>Loading once, and the failure of the index\<close>

lemma loadAllPosts_cached:
  "postsLoaded pm \<Longrightarrow> loadAllPosts net h pm = (Inr (posts pm), pm, [])"
  by (simp add: loadAllPosts_def)

lemma loadAllPosts_success:
  assumes "loadAllPosts net h pm = (Inr ps, pm', fetched)"
  shows "postsLoaded pm' \<and> posts pm' = ps"
proof (cases "postsLoaded pm")
  case True
  with assms show ?thesis by (auto simp: loadAllPosts_def)
next
  case False
  with assms show ?thesis
    by (auto simp: loadAllPosts_def loadSlugs_result posts_extractCategoriesAndTags
        split: response.splits option.splits if_splits)
qed

lemma session_loaded:
  assumes "postsLoaded pm"
  shows "snd (session h operations pm) = []
    \<and> postsLoaded (fst (session h operations pm))
    \<and> mset (posts (fst (session h operations pm))) = mset (posts pm)
    \<and> (list_all (\<lambda>operation. \<not> sortsInPlace operation) operations
          \<longrightarrow> fst (session h operations pm) = pm)"
  using assms
proof (induction operations arbitrary: pm)
  case Nil
  then show ?case by simp
next
  case (Cons operation operations)
  let ?pm1 = "fst (perform h operation pm)"
  have step: "snd (perform h operation pm) = [] \<and> postsLoaded ?pm1
      \<and> mset (posts ?pm1) = mset (posts pm)
      \<and> (\<not> sortsInPlace operation \<longrightarrow> ?pm1 = pm)"
    using Cons.prems
    by (cases operation)
       (simp_all add: loadAllPosts_cached snd_getLatestPosts sortsInPlace_def)
  then have "postsLoaded ?pm1" by simp
  from Cons.IH [OF this] step show ?case
    by (auto simp: split_beta)
qed

lemma example_load_five:
  "loadAllPosts fiveNetwork exampleHost newPostManager =
     (Inr (posts fiveManager), fiveManager,
      [''static/posts/index.json'', ''static/posts/p1.json'', ''static/posts/p2.json'',
       ''static/posts/p3.json'', ''static/posts/p4.json'', ''static/posts/p5.json''])"
  unfolding fiveManager_def
  by (simp add: loadAllPosts_def newPostManager_def fiveNetwork_def
      loadSlugs_result posts_extractCategoriesAndTags indexURL_def postURL_def)

text \<open>
  C4. After a call of \<^verbatim>\<open>loadAllPosts\<close> that returned a collection, take any sequence
  of further loads and reads, and the store \<open>st\<close> it leaves. The sequence has fetched no
  URL, neither the index nor a post; the store is still marked as loaded; and one more
  call, whatever the network answers then, fetches nothing, leaves the store as it is and
  returns the stored collection, which holds the posts of the first call, each as often.
  As long as \<^verbatim>\<open>getLatestPosts\<close> is not among the reads the store is the one the first
  call left, and the collection returned is the one the first call returned. After
  \<^verbatim>\<open>getLatestPosts\<close>, which sorts the stored array in place, it is that collection
  sorted by descending date: on the five example posts, loaded as \<open>p1\<close>, ..., \<open>p5\<close>, the
  call after \<^verbatim>\<open>getLatestPosts(6)\<close> returns \<open>p3, p5, p2, p1, p4\<close>. That the collection
  is the one of the first call fails there.
\<close>

theorem loadAllPosts_after_reads:
  assumes "loadAllPosts net h pm = (Inr ps, pm', fetched)"
  shows "snd (session h' operations pm') = []
    \<and> postsLoaded (fst (session h' operations pm'))
    \<and> loadAllPosts net' h'' (fst (session h' operations pm'))
        = (Inr (posts (fst (session h' operations pm'))), fst (session h' operations pm'), [])
    \<and> mset (posts (fst (session h' operations pm'))) = mset ps
    \<and> (list_all (\<lambda>operation. \<not> sortsInPlace operation) operations
          \<longrightarrow> fst (session h' operations pm') = pm'
              \<and> loadAllPosts net' h'' (fst (session h' operations pm')) = (Inr ps, pm', []))
    \<and> fst (loadAllPosts net' h''
              (fst (session h' (operations @ [GetLatestPosts limit]) pm')))
        = Inr (sort_key (\<lambda>p. - recency h' p) (posts (fst (session h' operations pm'))))"
proof -
  from loadAllPosts_success [OF assms] have loaded: "postsLoaded pm'" and ps: "posts pm' = ps"
    by simp_all
  note s = session_loaded [OF loaded, of h' operations]
  let ?st = "fst (session h' operations pm')"
  from s have stl: "postsLoaded ?st" by simp
  have again: "loadAllPosts net' h'' ?st = (Inr (posts ?st), ?st, [])"
    using stl by (rule loadAllPosts_cached)
  have app: "fst (session h' (operations @ [GetLatestPosts limit]) pm')
      = snd (getLatestPosts h' limit ?st)"
    by (induction operations arbitrary: pm') (simp_all add: split_beta)
  have "postsLoaded (snd (getLatestPosts h' limit ?st))"
    using stl by (simp add: snd_getLatestPosts)
  then have last: "fst (loadAllPosts net' h'' (snd (getLatestPosts h' limit ?st)))
      = Inr (sort_key (\<lambda>p. - recency h' p) (posts ?st))"
    by (simp add: loadAllPosts_cached snd_getLatestPosts)
  from s again ps last show ?thesis
    unfolding app by auto
qed

theorem loadAllPosts_after_reads_witness:
  "loadAllPosts fiveNetwork exampleHost newPostManager =
     (Inr (posts fiveManager), fiveManager,
      [''static/posts/index.json'', ''static/posts/p1.json'', ''static/posts/p2.json'',
       ''static/posts/p3.json'', ''static/posts/p4.json'', ''static/posts/p5.json''])
   \<and> map slug (posts fiveManager) = [''p1'', ''p2'', ''p3'', ''p4'', ''p5'']
   \<and> snd (session exampleHost [GetPostsByCategory ''Web'', LoadAllPosts offlineNetwork]
             fiveManager) = []
   \<and> loadAllPosts offlineNetwork exampleHost
        (fst (session exampleHost [GetPostsByCategory ''Web'', LoadAllPosts offlineNetwork]
                fiveManager))
       = (Inr (posts fiveManager), fiveManager, [])
   \<and> snd (session exampleHost [GetLatestPosts 6] fiveManager) = []
   \<and> map_sum id (map slug)
        (fst (loadAllPosts offlineNetwork exampleHost
                (fst (session exampleHost [GetLatestPosts 6] fiveManager))))
       = Inr [''p3'', ''p5'', ''p2'', ''p1'', ''p4'']"
proof -
  note T = loadAllPosts_after_reads [OF example_load_five]
  have plain: "list_all (\<lambda>operation. \<not> sortsInPlace operation)
      [GetPostsByCategory ''Web'', LoadAllPosts offlineNetwork]"
    by (simp add: sortsInPlace_def)
  from T [of exampleHost "[GetPostsByCategory ''Web'', LoadAllPosts offlineNetwork]"
      offlineNetwork exampleHost] plain
  have 1: "snd (session exampleHost [GetPostsByCategory ''Web'', LoadAllPosts offlineNetwork]
        fiveManager) = []"
    and 2: "loadAllPosts offlineNetwork exampleHost
        (fst (session exampleHost [GetPostsByCategory ''Web'', LoadAllPosts offlineNetwork]
                fiveManager))
       = (Inr (posts fiveManager), fiveManager, [])"
    by blast+
  from T [of exampleHost "[GetLatestPosts 6]" offlineNetwork exampleHost]
  have 3: "snd (session exampleHost [GetLatestPosts 6] fiveManager) = []"
    by blast
  from T [of exampleHost "[]" offlineNetwork exampleHost 6]
  have "fst (loadAllPosts offlineNetwork exampleHost
        (fst (session exampleHost [GetLatestPosts 6] fiveManager)))
      = Inr (sort_key (\<lambda>p. - recency exampleHost p) (posts fiveManager))"
    by simp
  then have 4: "map_sum id (map slug)
        (fst (loadAllPosts offlineNetwork exampleHost
                (fst (session exampleHost [GetLatestPosts 6] fiveManager))))
       = Inr [''p3'', ''p5'', ''p2'', ''p1'', ''p4'']"
    by (simp add: posts_fiveManager recency_examplePost dv slug_examplePost)
  have 5: "map slug (posts fiveManager) = [''p1'', ''p2'', ''p3'', ''p4'', ''p5'']"
    by (simp add: posts_fiveManager slug_examplePost)
  from example_load_five 1 2 3 4 5 show ?thesis by blast
qed

text \<open>
  C2, as stated, fails: where the index answers with a status that is not \<^verbatim>\<open>ok\<close> (a
  404), \<^verbatim>\<open>loadAllPosts\<close> does not abort; it probes the five common slugs and loads
  the collection from those that answer.
\<close>

theorem loadAllPosts_index_not_ok_counterexample:
  "indexResponse noIndexNetwork = Response False None
   \<and> fst (loadAllPosts noIndexNetwork exampleHost newPostManager)
       = Inr [processPost exampleHost docW]"
  by (simp add: loadAllPosts_def newPostManager_def noIndexNetwork_def loadSlugs_result
      survivors_def fetchedDocument_def discoverPosts_def commonSlugs_def responds_ok_def
      carriesRequiredFields_def docW_def exampleDoc_def)

text \<open>
  C2, amended. On a store not yet loaded: where the fetch of the index rejects, or the
  body of an \<^verbatim>\<open>ok\<close> response is not JSON, \<^verbatim>\<open>loadAllPosts\<close> returns the error, has
  fetched the index only and leaves the store unchanged, so not loaded. Where the index
  answers with a status that is not \<^verbatim>\<open>ok\<close>, the call returns the collection of the
  common slugs that answer \<^verbatim>\<open>ok\<close> and pass the validation, and marks the store loaded.
\<close>

theorem loadAllPosts_index_failure:
  assumes "\<not> postsLoaded pm"
  shows "(indexResponse net = Rejected \<longrightarrow>
            loadAllPosts net h pm = (Inl NetworkFailure, pm, [indexURL]))
    \<and> (indexResponse net = Response True None \<longrightarrow>
            loadAllPosts net h pm = (Inl JsonSyntaxError, pm, [indexURL]))
    \<and> (indexResponse net = Response False body \<longrightarrow>
            fst (loadAllPosts net h pm)
              = Inr (map (processPost h) (survivors net (discoverPosts net)))
            \<and> postsLoaded (fst (snd (loadAllPosts net h pm))))"
  using assms by (simp add: loadAllPosts_def loadSlugs_result)

theorem loadAllPosts_index_failure_witness:
  "\<not> postsLoaded newPostManager
   \<and> indexResponse offlineNetwork = Rejected
   \<and> loadAllPosts offlineNetwork exampleHost newPostManager
       = (Inl NetworkFailure, newPostManager, [''static/posts/index.json''])
   \<and> indexResponse brokenIndexNetwork = Response True None
   \<and> loadAllPosts brokenIndexNetwork exampleHost newPostManager
       = (Inl JsonSyntaxError, newPostManager, [''static/posts/index.json''])
   \<and> indexResponse noIndexNetwork = Response False None
   \<and> discoverPosts noIndexNetwork = [''welcome-to-my-blog'']
   \<and> fst (loadAllPosts noIndexNetwork exampleHost newPostManager)
       = Inr (map (processPost exampleHost) (survivors noIndexNetwork [''welcome-to-my-blog'']))"
proof -
  have 0: "\<not> postsLoaded newPostManager"
    by (simp add: newPostManager_def)
  have 1: "indexResponse offlineNetwork = Rejected"
    by (simp add: offlineNetwork_def)
  have 2: "indexResponse brokenIndexNetwork = Response True None"
    by (simp add: brokenIndexNetwork_def)
  have 3: "indexResponse noIndexNetwork = Response False None"
    by (simp add: noIndexNetwork_def)
  have 4: "discoverPosts noIndexNetwork = [''welcome-to-my-blog'']"
    by (simp add: discoverPosts_def commonSlugs_def noIndexNetwork_def responds_ok_def)
  from loadAllPosts_index_failure [OF 0, of offlineNetwork exampleHost]
    loadAllPosts_index_failure [OF 0, of brokenIndexNetwork exampleHost]
    loadAllPosts_index_failure [OF 0, of noIndexNetwork exampleHost None]
    0 1 2 3 4
  show ?thesis by (simp add: indexURL_def)
qed

section \<open>The search box\<close>

lemma fragmentEncode_kept: "keptInFragment s \<Longrightarrow> fragmentEncode s = s"
  unfolding keptInFragment_def fragmentEncode_def by (induction s) simp_all

lemma keptInFragment_append:
  "keptInFragment (s @ t) \<longleftrightarrow> keptInFragment s \<and> keptInFragment t"
  by (simp add: keptInFragment_def)

lemma keptInFragment_slash: "keptInFragment ''/''"
  by (simp add: keptInFragment_def isTabOrNewline_def inFragmentEncodeSet_def)

lemma keptInFragment_home: "keptInFragment ''home''"
  by (simp add: keptInFragment_def isTabOrNewline_def inFragmentEncodeSet_def)

lemma navigate_home:
  "navigate h ''home'' [] a =
     a\<lparr>currentRoute := Some ''home'', currentParams := [],
       locationHash := ''#home'', hashWrites := hashWrites a @ [''#home'']\<rparr>"
  by (simp add: navigate_def truthy_def assignHash_def Let_def
      fragmentEncode_kept [OF keptInFragment_home])

text \<open>
  C7, as stated, fails for the empty query: its trimmed length is below 2, and
  \<^verbatim>\<open>handleSearch\<close> navigates to the home route.
\<close>

theorem handleSearch_empty_query_counterexample:
  "length (trim []) < 2
   \<and> hashWrites newApp = []
   \<and> hashWrites (fst (handleSearch exampleNetwork exampleHost [] newApp)) = [''#home'']
   \<and> currentRoute (fst (handleSearch exampleNetwork exampleHost [] newApp)) = Some ''home''"
  by (simp add: handleSearch_def trim_def navigate_home newApp_def)

text \<open>
  C7, amended. For a query whose trimmed length is 1, \<^verbatim>\<open>handleSearch\<close> does nothing:
  the state is unchanged (no navigation, no search results, no change of the store) and
  no URL is fetched. For a query whose trimmed length is 0 it fetches nothing and leaves
  the search results, the current query and the store as they are, but navigates to the
  home route.
\<close>

theorem handleSearch_short_query:
  "(length (trim query) = 1 \<longrightarrow> handleSearch net h query a = (a, []))
   \<and> (length (trim query) = 0 \<longrightarrow>
        handleSearch net h query a =
          (a\<lparr>currentRoute := Some ''home'', currentParams := [],
             locationHash := ''#home'', hashWrites := hashWrites a @ [''#home'']\<rparr>, []))"
  by (simp add: handleSearch_def Let_def navigate_home)

theorem handleSearch_short_query_witness:
  "length (trim '' x '') = 1
   \<and> handleSearch exampleNetwork exampleHost '' x '' newApp = (newApp, [])
   \<and> length (trim ''  '') = 0
   \<and> handleSearch exampleNetwork exampleHost ''  '' newApp =
       (newApp\<lparr>currentRoute := Some ''home'', currentParams := [],
          locationHash := ''#home'', hashWrites := hashWrites newApp @ [''#home'']\<rparr>, [])"
proof -
  have 1: "length (trim '' x '') = 1"
    by (simp add: trim_def isWhiteSpace_def)
  have 2: "length (trim ''  '') = 0"
    by (simp add: trim_def isWhiteSpace_def)
  from handleSearch_short_query [of "'' x ''" exampleNetwork exampleHost newApp]
    handleSearch_short_query [of "''  ''" exampleNetwork exampleHost newApp] 1 2
  show ?thesis by blast
qed


section \<open>Routes and fragments\<close>

text \<open>
  C3. Reading back the fragment that \<^verbatim>\<open>navigate\<close> writes does not reproduce the route
  and its parameters. The search manager navigates to \<open>search\<close> with the parameter
  \<^verbatim>\<open>query\<close>, which \<^verbatim>\<open>navigate\<close> does not write: the fragment is \<open>#search\<close> and the
  parameters read back are empty. With the parameter \<^verbatim>\<open>q\<close>, which \<^verbatim>\<open>navigate\<close> does
  write, the route read back is \<open>search?q=js\<close>, since \<^verbatim>\<open>handleRouteChange\<close> cuts the
  fragment at \<open>/\<close> without removing the query first; that route has no handler and the
  handler of \<open>404\<close> is invoked.
\<close>

theorem navigate_round_trip_fails:
  "resolveRoute exampleHost None (navigate exampleHost ''search'' [(''query'', ''js'')] newApp)
     = Inr (''search'', [])
   \<and> resolveRoute exampleHost None (navigate exampleHost ''search'' [(''q'', ''js'')] newApp)
     = Inr (''search?q=js'', [(''q'', ''js'')])
   \<and> map_sum id handlerCalls
         (handleRouteChange exampleHost None
            (navigate exampleHost ''search'' [(''q'', ''js'')] newApp))
     = Inr [''404'']"
  by code_simp

section \<open>Photo placeholders\<close>

text \<open>
  C9. The image element that replaces \<^verbatim>\<open>{{photo1}}\<close> is not sourced from the photo
  where the reference of the photo holds a dollar sign: the image element is given to
  \<^verbatim>\<open>replace\<close> as a replacement template, in which \<^verbatim>\<open>$$\<close> stands for one dollar sign.
  For the photo \<^verbatim>\<open>img/a$$b.jpg\<close> the result refers to \<^verbatim>\<open>img/a$b.jpg\<close>.
\<close>

theorem replacePhotoPlaceholders_dollar:
  "replacePhotoPlaceholders ''<p>{{photo1}}</p>'' [''img/a$$b.jpg'']
     = ''<p><img src=\"img/a$b.jpg\" alt=\"Blog image 1\" class=\"w-full h-auto rounded-lg shadow-md my-4\" loading=\"lazy\"></p>''
   \<and> imgTag ''img/a$$b.jpg'' 1
     = ''<img src=\"img/a$$b.jpg\" alt=\"Blog image 1\" class=\"w-full h-auto rounded-lg shadow-md my-4\" loading=\"lazy\">''"
  by code_simp


text \<open>
  What does come back: a route alone, and a route with a slug, where neither holds \<open>/\<close>
  or \<open>?\<close> or a character that the fragment does not keep as it is.
\<close>

lemma split_on_absent: "c \<notin> set s \<Longrightarrow> split_on c s = [s]"
  by (induction s) auto

lemma split_on_first: "c \<notin> set r \<Longrightarrow> split_on c (r @ c # s) = r # split_on c s"
  by (induction r) auto

lemma navigate_resolve_plain:
  assumes "route \<noteq> []" and "CHR ''/'' \<notin> set route" and "CHR ''?'' \<notin> set route"
    and "keptInFragment route"
  shows "resolveRoute h None (navigate h route [] a) = Inr (route, [])"
  using assms
  by (simp add: resolveRoute_def navigate_def Let_def truthy_def assignHash_def
      fragmentEncode_kept split_on_absent queryPart_def urlSearchParams_def)

lemma navigate_resolve_slug:
  assumes "route \<noteq> []" and "CHR ''/'' \<notin> set route" and "CHR ''?'' \<notin> set route"
    and "s \<noteq> []" and "CHR ''/'' \<notin> set s" and "CHR ''?'' \<notin> set s"
    and "keptInFragment route" and "keptInFragment s"
  shows "resolveRoute h None (navigate h route [(''slug'', s)] a) = Inr (route, [(''slug'', s)])"
proof -
  have "keptInFragment (route @ ''/'' @ s)"
    unfolding keptInFragment_append using assms(7,8) keptInFragment_slash by blast
  then have "fragmentEncode (route @ ''/'' @ s) = route @ ''/'' @ s"
    by (rule fragmentEncode_kept)
  then have "fragmentEncode (route @ CHR ''/'' # s) = route @ CHR ''/'' # s"
    by simp
  with assms(1-6) show ?thesis
    by (simp add: resolveRoute_def navigate_def Let_def truthy_def str_def assignHash_def
        split_on_absent split_on_first queryPart_def urlSearchParams_def)
qed

subsection \<open>References without dollar sign and brace\<close>

text \<open>
  Where no reference of a photo holds a dollar sign or an opening brace, the loop of
  replacements is the substitution of the specification: every token that counts a photo
  is replaced by the image element of that photo, and nothing else changes.
\<close>

lemma digit_nth: "n < 10 \<Longrightarrow> ''0123456789'' ! n \<in> digitChars"
  unfolding digitChars_def by (rule nth_mem) simp

lemma string_of_nat_digits: "set (string_of_nat n) \<subseteq> digitChars"
proof (induction n rule: string_of_nat.induct)
  case (1 n)
  show ?case
  proof (cases "n < 10")
    case True
    then show ?thesis by (subst string_of_nat.simps) (simp add: digit_nth)
  next
    case False
    with 1 have "set (string_of_nat (n div 10)) \<subseteq> digitChars" by simp
    moreover have "''0123456789'' ! (n mod 10) \<in> digitChars" by (rule digit_nth) simp
    ultimately show ?thesis using False by (subst string_of_nat.simps) simp
  qed
qed

lemma string_of_nat_not_Nil: "string_of_nat n \<noteq> []"
  by (subst string_of_nat.simps) simp

lemma digit_nth_inj:
  assumes "a < 10" and "b < 10" and "''0123456789'' ! a = ''0123456789'' ! b"
  shows "a = b"
proof -
  have "distinct ''0123456789''" by simp
  moreover have "a < length ''0123456789''" "b < length ''0123456789''" using assms by simp_all
  ultimately show ?thesis using assms(3) nth_eq_iff_index_eq by blast
qed

lemma string_of_nat_inj: "string_of_nat n = string_of_nat m \<Longrightarrow> n = m"
proof (induction n arbitrary: m rule: string_of_nat.induct)
  case (1 n)
  show ?case
  proof (cases "n < 10")
    case n: True
    show ?thesis
    proof (cases "m < 10")
      case True
      with n "1.prems" show ?thesis
        by (subst (asm) string_of_nat.simps, subst (asm) (2) string_of_nat.simps)
           (simp add: digit_nth_inj)
    next
      case False
      have "length (string_of_nat m) = length (string_of_nat (m div 10)) + 1"
        using False by (subst string_of_nat.simps) simp
      moreover have "length (string_of_nat (m div 10)) \<noteq> 0"
        using string_of_nat_not_Nil by simp
      moreover have "length (string_of_nat n) = 1"
        using n by (subst string_of_nat.simps) simp
      ultimately show ?thesis using "1.prems" by simp
    qed
  next
    case n: False
    show ?thesis
    proof (cases "m < 10")
      case True
      have "length (string_of_nat n) = length (string_of_nat (n div 10)) + 1"
        using n by (subst string_of_nat.simps) simp
      moreover have "length (string_of_nat (n div 10)) \<noteq> 0"
        using string_of_nat_not_Nil by simp
      moreover have "length (string_of_nat m) = 1"
        using True by (subst string_of_nat.simps) simp
      ultimately show ?thesis using "1.prems" by simp
    next
      case False
      have en: "string_of_nat n = string_of_nat (n div 10) @ [''0123456789'' ! (n mod 10)]"
        using n by (subst string_of_nat.simps) simp
      have em: "string_of_nat m = string_of_nat (m div 10) @ [''0123456789'' ! (m mod 10)]"
        using False by (subst string_of_nat.simps) simp
      from "1.prems" en em
      have a: "string_of_nat (n div 10) = string_of_nat (m div 10)"
        and b: "''0123456789'' ! (n mod 10) = ''0123456789'' ! (m mod 10)"
        by simp_all
      from a have "n div 10 = m div 10" using "1.IH" n by blast
      moreover from b have "n mod 10 = m mod 10" by (intro digit_nth_inj) simp_all
      ultimately show ?thesis by (metis div_mult_mod_eq)
    qed
  qed
qed

lemma placeholder_Cons: "placeholder n = CHR ''{'' # CHR ''{'' # tokenBody n"
  by (simp add: placeholder_def tokenBody_def)

lemma placeholder_not_Nil: "placeholder n \<noteq> []"
  by (simp add: placeholder_Cons)

lemma brace_not_digit: "CHR ''{'' \<notin> digitChars" "CHR ''}'' \<notin> digitChars"
  "CHR ''<'' \<notin> digitChars" "CHR ''$'' \<notin> digitChars"
  by (simp_all add: digitChars_def)

lemma tokenBody_chars: "CHR ''{'' \<notin> set (tokenBody n)" "CHR ''<'' \<notin> set (tokenBody n)"
  using string_of_nat_digits [of n] brace_not_digit by (auto simp: tokenBody_def)

lemma startsWith_append: "startsWith (t @ w) t"
  by (simp add: startsWith_iff)

lemma placeholder_unique:
  assumes "startsWith s (placeholder n)" and "startsWith s (placeholder m)"
  shows "n = m"
proof -
  from assms obtain w w' where "s = placeholder n @ w" and "s = placeholder m @ w'"
    unfolding startsWith_iff by blast
  then have e: "string_of_nat n @ CHR ''}'' # CHR ''}'' # w = string_of_nat m @ CHR ''}'' # CHR ''}'' # w'"
    by (simp add: placeholder_def)
  have tw: "takeWhile (\<lambda>c. c \<in> digitChars) (string_of_nat k @ CHR ''}'' # r) = string_of_nat k"
    for k r
    using string_of_nat_digits [of k] brace_not_digit
    by (subst takeWhile_append2) auto
  from e have "takeWhile (\<lambda>c. c \<in> digitChars) (string_of_nat n @ CHR ''}'' # CHR ''}'' # w)
      = takeWhile (\<lambda>c. c \<in> digitChars) (string_of_nat m @ CHR ''}'' # CHR ''}'' # w')"
    by simp
  then have "string_of_nat n = string_of_nat m"
    unfolding tw .
  then show ?thesis by (rule string_of_nat_inj)
qed

lemma getSubstitution_plain:
  "CHR ''$'' \<notin> set r \<Longrightarrow> getSubstitution m pre suf r = r"
  by (induction m pre suf r rule: getSubstitution.induct) auto

lemma imgTag_Cons: "\<exists>r. imgTag photo n = CHR ''<'' # r"
  by (simp add: imgTag_def)

lemma find_None: "(\<And>x. x \<in> set xs \<Longrightarrow> \<not> P x) \<Longrightarrow> find P xs = None"
  by (induction xs) auto

lemma find_SomeD: "find P xs = Some x \<Longrightarrow> P x \<and> x \<in> set xs"
  by (induction xs) (auto split: if_splits)

lemma find_unique:
  assumes "x \<in> set xs" and "P x" and "\<forall>y \<in> set xs. P y \<longrightarrow> y = x"
  shows "find P xs = Some x"
  using assms
proof (induction xs)
  case Nil
  then show ?case by simp
next
  case (Cons a xs)
  show ?case
  proof (cases "P a")
    case True
    with Cons.prems(3) have "a = x" by simp
    with True show ?thesis by simp
  next
    case False
    with Cons.prems(1,2) have "x \<in> set xs" by auto
    moreover from Cons.prems(3) have "\<forall>y \<in> set xs. P y \<longrightarrow> y = x" by simp
    ultimately have "find P xs = Some x" using Cons.IH Cons.prems(2) by blast
    with False show ?thesis by simp
  qed
qed

lemma imgTag_chars:
  assumes "c \<notin> set photo" and "c \<notin> digitChars"
    and "c \<notin> set ''<img src=\" alt=Blogimage class=w-full h-auto rounded-lg shadow-md my-4 loading=lazy>''"
  shows "c \<notin> set (imgTag photo n)"
  using assms string_of_nat_digits [of n] by (auto simp: imgTag_def)

lemma imgTag_no_dollar: "CHR ''$'' \<notin> set photo \<Longrightarrow> CHR ''$'' \<notin> set (imgTag photo n)"
  by (rule imgTag_chars) (simp_all add: brace_not_digit)

lemma imgTag_no_brace: "CHR ''{'' \<notin> set photo \<Longrightarrow> CHR ''{'' \<notin> set (imgTag photo n)"
  by (rule imgTag_chars) (simp_all add: brace_not_digit)

lemma tokenAt_not_brace: "c \<noteq> CHR ''{'' \<Longrightarrow> tokenAt lo k (c # s) = None"
  unfolding tokenAt_def by (rule find_None) (simp add: placeholder_Cons)

lemma tokenAt_SomeD:
  "tokenAt lo k s = Some n \<Longrightarrow> startsWith s (placeholder n) \<and> lo < n \<and> n \<le> lo + k"
  unfolding tokenAt_def by (drule find_SomeD) auto

lemma tokenAt_SomeI:
  "startsWith s (placeholder n) \<Longrightarrow> lo < n \<Longrightarrow> n \<le> lo + k \<Longrightarrow> tokenAt lo k s = Some n"
  unfolding tokenAt_def
  by (rule find_unique) (auto dest: placeholder_unique)

lemma tokenAt_NoneD:
  assumes "tokenAt lo k s = None" and "lo < n" and "n \<le> lo + k"
  shows "\<not> startsWith s (placeholder n)"
proof -
  from assms(1) have "\<forall>x \<in> set [lo + 1 ..< lo + 1 + k]. \<not> startsWith s (placeholder x)"
    unfolding tokenAt_def find_None_iff by blast
  moreover from assms(2,3) have "n \<in> set [lo + 1 ..< lo + 1 + k]" by auto
  ultimately show ?thesis by blast
qed

lemma tokenAt_NoneI:
  "(\<And>n. lo < n \<Longrightarrow> n \<le> lo + k \<Longrightarrow> \<not> startsWith s (placeholder n)) \<Longrightarrow> tokenAt lo k s = None"
  unfolding tokenAt_def by (rule find_None) auto

lemma substituteTokens_plain:
  "CHR ''{'' \<notin> set t \<Longrightarrow> substituteTokens lo refs (t @ v) = t @ substituteTokens lo refs v"
proof (induction t)
  case Nil
  then show ?case by simp
next
  case (Cons a t)
  then have "a \<noteq> CHR ''{''" by auto
  then have "tokenAt lo (length refs) (a # t @ v) = None" by (rule tokenAt_not_brace)
  with Cons show ?case by simp
qed

lemma tokenBody_Cons: "\<exists>r. tokenBody n = CHR ''p'' # r"
  by (simp add: tokenBody_def)

lemma replaceGlobal_step:
  assumes "CHR ''$'' \<notin> set T"
  shows "replaceGlobal (placeholder N) T pre (c # s) =
     (if startsWith (c # s) (placeholder N)
      then T @ replaceGlobal (placeholder N) T (pre @ placeholder N)
                 (drop (length (placeholder N) - 1) s)
      else c # replaceGlobal (placeholder N) T (pre @ [c]) s)"
  using assms by (simp add: placeholder_not_Nil getSubstitution_plain)

lemma replaceGlobal_plain:
  "CHR ''{'' \<notin> set t \<Longrightarrow>
     replaceGlobal (placeholder N) T pre (t @ v) = t @ replaceGlobal (placeholder N) T (pre @ t) v"
proof (induction t arbitrary: pre)
  case Nil
  then show ?case by simp
next
  case (Cons a t)
  then have "a \<noteq> CHR ''{''" by auto
  then have "\<not> startsWith (a # t @ v) (placeholder N)"
    by (simp add: placeholder_Cons)
  moreover from Cons have "replaceGlobal (placeholder N) T (pre @ [a]) (t @ v)
      = t @ replaceGlobal (placeholder N) T ((pre @ [a]) @ t) v"
    by simp
  ultimately show ?case by simp
qed

lemma replaceGlobal_other_token:
  assumes "M \<noteq> N"
  shows "replaceGlobal (placeholder N) T pre (placeholder M @ rest)
     = placeholder M @ replaceGlobal (placeholder N) T (pre @ placeholder M) rest"
proof -
  obtain r where body: "tokenBody M = CHR ''p'' # r"
    using tokenBody_Cons by blast
  have 1: "\<not> startsWith (placeholder M @ rest) (placeholder N)"
    using placeholder_unique [of "placeholder M @ rest" M N] startsWith_append assms by blast
  have 2: "\<not> startsWith (CHR ''{'' # tokenBody M @ rest) (placeholder N)"
    by (simp add: placeholder_Cons body)
  have 3: "replaceGlobal (placeholder N) T (pre @ ''{{'') (tokenBody M @ rest)
      = tokenBody M @ replaceGlobal (placeholder N) T ((pre @ ''{{'') @ tokenBody M) rest"
    by (rule replaceGlobal_plain) (rule tokenBody_chars)
  have "replaceGlobal (placeholder N) T pre (placeholder M @ rest)
      = CHR ''{'' # replaceGlobal (placeholder N) T (pre @ ''{'') (CHR ''{'' # tokenBody M @ rest)"
    using 1 by (simp add: placeholder_Cons [of M])
  also have "\<dots> = CHR ''{'' # CHR ''{''
      # replaceGlobal (placeholder N) T (pre @ ''{{'') (tokenBody M @ rest)"
    using 2 by simp
  also have "\<dots> = placeholder M @ replaceGlobal (placeholder N) T (pre @ placeholder M) rest"
    unfolding 3 by (simp add: placeholder_Cons [of M])
  finally show ?thesis .
qed

lemma startsWith_replaceGlobal:
  assumes "CHR ''<'' \<notin> set body" and "T = CHR ''<'' # T'" and "CHR ''$'' \<notin> set T"
    and "startsWith (replaceGlobal (placeholder N) T pre x) body"
  shows "startsWith x body"
  using assms(1,4)
proof (induction body arbitrary: x pre)
  case Nil
  then show ?case by simp
next
  case (Cons b body)
  show ?case
  proof (cases x)
    case Nil
    with Cons.prems show ?thesis by (simp add: placeholder_not_Nil)
  next
    case (Cons e x')
    show ?thesis
    proof (cases "startsWith (e # x') (placeholder N)")
      case True
      from Cons.prems(2)
      have X: "startsWith (replaceGlobal (placeholder N) T pre (e # x')) (b # body)"
        unfolding Cons .
      have Y: "replaceGlobal (placeholder N) T pre (e # x')
          = CHR ''<'' # T' @ replaceGlobal (placeholder N) T (pre @ placeholder N)
                (drop (length (placeholder N) - 1) x')"
        using True assms(2,3) by (simp add: replaceGlobal_step del: replaceGlobal.simps)
      from X [unfolded Y] have "b = CHR ''<''"
        by simp
      with Cons.prems(1) show ?thesis by simp
    next
      case False
      from Cons.prems(2)
      have X: "startsWith (replaceGlobal (placeholder N) T pre (e # x')) (b # body)"
        unfolding Cons .
      have Y: "replaceGlobal (placeholder N) T pre (e # x')
          = e # replaceGlobal (placeholder N) T (pre @ [e]) x'"
        using False assms(3) by (simp add: replaceGlobal_step del: replaceGlobal.simps)
      from X [unfolded Y]
      have "e = b" and "startsWith (replaceGlobal (placeholder N) T (pre @ [e]) x') body"
        by auto
      moreover from Cons.prems(1) have "CHR ''<'' \<notin> set body" by simp
      ultimately show ?thesis using Cons.IH Cons by simp
    qed
  qed
qed

lemma startsWith_token_replaceGlobal:
  assumes "T = CHR ''<'' # T'" and "CHR ''$'' \<notin> set T"
    and "startsWith (c # replaceGlobal (placeholder N) T pre s) (placeholder m)"
  shows "startsWith (c # s) (placeholder m)"
proof -
  from assms(3) have c: "c = CHR ''{''"
    and r: "startsWith (replaceGlobal (placeholder N) T pre s) (CHR ''{'' # tokenBody m)"
    by (simp_all add: placeholder_Cons)
  have "CHR ''<'' \<notin> set (CHR ''{'' # tokenBody m)"
    using tokenBody_chars(2) [of m] by simp
  then have "startsWith s (CHR ''{'' # tokenBody m)"
    using assms(1,2) r by (rule startsWith_replaceGlobal)
  with c show ?thesis by (simp add: placeholder_Cons)
qed

lemma substituteTokens_none: "substituteTokens lo [] s = s"
proof (induction s)
  case Nil
  then show ?case by simp
next
  case (Cons c s)
  have "tokenAt lo 0 (c # s) = None" by (simp add: tokenAt_def)
  with Cons show ?case by simp
qed

lemma drop_token: "drop (length (placeholder n) - 1) (tl (placeholder n) @ v) = v"
  by (simp add: placeholder_Cons)

lemma substituteTokens_token:
  assumes "lo < n" and "n \<le> lo + length refs"
  shows "substituteTokens lo refs (placeholder n @ v)
     = imgTag (refs ! (n - lo - 1)) n @ substituteTokens lo refs v"
proof -
  have t: "tokenAt lo (length refs) (placeholder n @ v) = Some n"
    by (rule tokenAt_SomeI [OF startsWith_append assms])
  have e: "placeholder n @ v = CHR ''{'' # (tl (placeholder n) @ v)"
    by (simp add: placeholder_Cons)
  have "substituteTokens lo refs (CHR ''{'' # (tl (placeholder n) @ v))
      = imgTag (refs ! (n - lo - 1)) n
          @ substituteTokens lo refs (drop (length (placeholder n) - 1) (tl (placeholder n) @ v))"
    using t [unfolded e] by simp
  then show ?thesis unfolding e drop_token .
qed

lemma replaceGlobal_same_token:
  assumes "CHR ''$'' \<notin> set T"
  shows "replaceGlobal (placeholder N) T pre (placeholder N @ v)
     = T @ replaceGlobal (placeholder N) T (pre @ placeholder N) v"
proof -
  have e: "placeholder N @ v = CHR ''{'' # (tl (placeholder N) @ v)"
    by (simp add: placeholder_Cons)
  have s: "startsWith (CHR ''{'' # (tl (placeholder N) @ v)) (placeholder N)"
    using startsWith_append [of "placeholder N" v] unfolding e .
  have "replaceGlobal (placeholder N) T pre (CHR ''{'' # (tl (placeholder N) @ v))
      = T @ replaceGlobal (placeholder N) T (pre @ placeholder N)
              (drop (length (placeholder N) - 1) (tl (placeholder N) @ v))"
    using s by (simp add: replaceGlobal_step [OF assms] del: replaceGlobal.simps)
  then show ?thesis unfolding e drop_token .
qed

lemma substitute_after_replace:
  assumes "CHR ''$'' \<notin> set p" and "CHR ''{'' \<notin> set p"
  shows "substituteTokens (Suc lo) ps
           (replaceGlobal (placeholder (Suc lo)) (imgTag p (Suc lo)) pre s)
     = substituteTokens lo (p # ps) s"
proof (induction s arbitrary: pre rule: length_induct)
  case (1 s)
  let ?N = "Suc lo"
  let ?T = "imgTag p ?N"
  have Td: "CHR ''$'' \<notin> set ?T" using assms(1) by (rule imgTag_no_dollar)
  have Tb: "CHR ''{'' \<notin> set ?T" using assms(2) by (rule imgTag_no_brace)
  obtain T' where T': "?T = CHR ''<'' # T'" using imgTag_Cons by blast
  show ?case
  proof (cases s)
    case Nil
    then show ?thesis by (simp add: placeholder_not_Nil)
  next
    case (Cons c s')
    show ?thesis
    proof (cases "tokenAt lo (length (p # ps)) (c # s')")
      case None
      have no: "\<not> startsWith (c # s') (placeholder ?N)"
        by (rule tokenAt_NoneD [OF None]) simp_all
      let ?R = "replaceGlobal (placeholder ?N) ?T (pre @ [c]) s'"
      have R: "replaceGlobal (placeholder ?N) ?T pre (c # s') = c # ?R"
        using no by (simp add: replaceGlobal_step [OF Td] del: replaceGlobal.simps)
      have "tokenAt ?N (length ps) (c # ?R) = None"
      proof (rule tokenAt_NoneI)
        fix n
        assume n: "?N < n" "n \<le> ?N + length ps"
        show "\<not> startsWith (c # ?R) (placeholder n)"
        proof
          assume "startsWith (c # ?R) (placeholder n)"
          with T' Td have "startsWith (c # s') (placeholder n)"
            by (rule startsWith_token_replaceGlobal)
          moreover have "\<not> startsWith (c # s') (placeholder n)"
            by (rule tokenAt_NoneD [OF None]) (use n in simp_all)
          ultimately show False by blast
        qed
      qed
      then have "substituteTokens ?N ps (c # ?R) = c # substituteTokens ?N ps ?R"
        by simp
      also have "substituteTokens ?N ps ?R = substituteTokens lo (p # ps) s'"
        using 1 Cons by simp
      also have "c # substituteTokens lo (p # ps) s' = substituteTokens lo (p # ps) (c # s')"
        using None by simp
      finally show ?thesis unfolding Cons R .
    next
      case (Some n)
      from tokenAt_SomeD [OF Some]
      have st: "startsWith (c # s') (placeholder n)" and lo: "lo < n"
        and hi: "n \<le> lo + length (p # ps)"
        by simp_all
      from st obtain w where w: "c # s' = placeholder n @ w"
        unfolding startsWith_iff by blast
      have "length w < length (c # s')"
        unfolding w using placeholder_not_Nil [of n] by simp
      then have IH: "substituteTokens ?N ps
          (replaceGlobal (placeholder ?N) ?T (pre @ placeholder n) w)
            = substituteTokens lo (p # ps) w"
        using 1 Cons by simp
      have rhs: "substituteTokens lo (p # ps) (c # s')
          = imgTag ((p # ps) ! (n - lo - 1)) n @ substituteTokens lo (p # ps) w"
        unfolding w using lo hi by (rule substituteTokens_token)
      show ?thesis
      proof (cases "n = ?N")
        case True
        have "replaceGlobal (placeholder ?N) ?T pre (c # s')
            = ?T @ replaceGlobal (placeholder ?N) ?T (pre @ placeholder ?N) w"
          unfolding w True using Td by (rule replaceGlobal_same_token)
        then have "substituteTokens ?N ps (replaceGlobal (placeholder ?N) ?T pre (c # s'))
            = ?T @ substituteTokens ?N ps
                (replaceGlobal (placeholder ?N) ?T (pre @ placeholder ?N) w)"
          using Tb by (simp add: substituteTokens_plain)
        also have "\<dots> = ?T @ substituteTokens lo (p # ps) w"
          using IH True by simp
        also have "\<dots> = substituteTokens lo (p # ps) (c # s')"
          unfolding rhs using True by simp
        finally show ?thesis unfolding Cons .
      next
        case False
        with lo have n: "?N < n" by simp
        from hi have n': "n \<le> ?N + length ps" by simp
        have "replaceGlobal (placeholder ?N) ?T pre (c # s')
            = placeholder n @ replaceGlobal (placeholder ?N) ?T (pre @ placeholder n) w"
          unfolding w using False by (rule replaceGlobal_other_token)
        then have "substituteTokens ?N ps (replaceGlobal (placeholder ?N) ?T pre (c # s'))
            = imgTag (ps ! (n - ?N - 1)) n
                @ substituteTokens ?N ps
                    (replaceGlobal (placeholder ?N) ?T (pre @ placeholder n) w)"
          using substituteTokens_token [OF n n'] by simp
        also have "\<dots> = imgTag (ps ! (n - ?N - 1)) n @ substituteTokens lo (p # ps) w"
          using IH by simp
        also have "ps ! (n - ?N - 1) = (p # ps) ! (n - lo - 1)"
          using n by (simp add: nth_Cons')
        finally show ?thesis unfolding Cons rhs .
      qed
    qed
  qed
qed

lemma replacePhotosFrom_substituteTokens:
  assumes "\<forall>p \<in> set ps. CHR ''$'' \<notin> set p \<and> CHR ''{'' \<notin> set p"
  shows "replacePhotosFrom lo ps s = substituteTokens lo ps s"
  using assms
proof (induction ps arbitrary: lo s)
  case Nil
  then show ?case by (simp add: substituteTokens_none)
next
  case (Cons p ps)
  then have p: "CHR ''$'' \<notin> set p" "CHR ''{'' \<notin> set p"
    and ps: "\<forall>p \<in> set ps. CHR ''$'' \<notin> set p \<and> CHR ''{'' \<notin> set p"
    by simp_all
  have "replacePhotosFrom lo (p # ps) s
      = replacePhotosFrom (Suc lo) ps
          (replaceGlobal (placeholder (Suc lo)) (imgTag p (Suc lo)) [] s)"
    by simp
  also have "\<dots> = substituteTokens (Suc lo) ps
      (replaceGlobal (placeholder (Suc lo)) (imgTag p (Suc lo)) [] s)"
    using ps by (rule Cons.IH)
  also have "\<dots> = substituteTokens lo (p # ps) s"
    using p by (rule substitute_after_replace)
  finally show ?case .
qed

lemma replacePhotoPlaceholders_substituteTokens:
  assumes "\<forall>p \<in> set refs. CHR ''$'' \<notin> set p \<and> CHR ''{'' \<notin> set p"
  shows "replacePhotoPlaceholders content refs = substituteTokens 0 refs content"
  unfolding replacePhotoPlaceholders_def using assms by (rule replacePhotosFrom_substituteTokens)

lemma replacePhotoPlaceholders_scenario:
  "replacePhotoPlaceholders ''<p>{{photo1}}</p>'' [''x.jpg'']
     = ''<p>'' @ imgTag ''x.jpg'' 1 @ ''</p>''"
  by code_simp

end
